theory Spec2Isabelle
  imports Complex_Main "HOL-Library.Sublist"
begin

section \<open>Data model (types/geometry)\<close>

text \<open>
  The numbers of the program are modelled as real numbers: every arithmetic operation is
  the exact one. The two fields of a \<open>Point\<close> are called \<open>px\<close> and \<open>py\<close> here
  (\<open>x\<close> and \<open>y\<close> in the source), so that \<open>x\<close> and \<open>y\<close> stay usable as variables.
  A number that the source can only produce as \<open>NaN\<close> (the square root of a negative
  number) is \<open>None\<close> in a field of type \<open>real option\<close>.
\<close>

record Point =
  px :: real
  py :: real

record CrossSection =
  outerBoundary :: "Point list"
  holes :: "Point list list"

record ElasticProperties =
  area :: real
  centroidX :: real
  centroidY :: real
  Ix :: real
  Iy :: real
  Ixy :: real
  Ix_principal :: real
  Iy_principal :: real
  theta_principal :: real
  Sx_top :: real
  Sx_bot :: real
  Sy_left :: real
  Sy_right :: real
  rx :: "real option"
  ry :: "real option"

record PlasticProperties =
  pnaX :: real
  pnaY :: real
  Zx :: real
  Zy :: real

record SectionProperties =
  elastic :: ElasticProperties
  plastic :: "PlasticProperties option"

datatype direction = horizontal | vertical

datatype keepSide = below | above

section \<open>Polygon algebra\<close>

text \<open>
  Every loop over a polygon has the header
  \<^verbatim>\<open>for (let i = 0; i < n; i++) { const j = (i + 1) % n; ... vertices[i] ... vertices[j] ... }\<close>
  \<open>cyclicPairs\<close> is the list of the pairs \<open>(vertices[i], vertices[j])\<close> the loop visits,
  in order. Both indices are below \<open>n\<close>, so no read is out of range.
\<close>

definition cyclicPairs :: "'a list \<Rightarrow> ('a \<times> 'a) list" where
  "cyclicPairs vertices =
     map (\<lambda>i. (vertices ! i, vertices ! ((i + 1) mod length vertices))) [0..<length vertices]"

definition cross :: "Point \<Rightarrow> Point \<Rightarrow> real" where
  "cross vi vj = px vi * py vj - px vj * py vi"

definition signedPolygonArea :: "Point list \<Rightarrow> real" where
  "signedPolygonArea vertices =
     (if length vertices < 3 then 0
      else fold (\<lambda>(vi, vj) a. a + px vi * py vj - px vj * py vi) (cyclicPairs vertices) 0 / 2)"

definition polygonArea :: "Point list \<Rightarrow> real" where
  "polygonArea vertices = \<bar>signedPolygonArea vertices\<bar>"

definition polygonCentroid :: "Point list \<Rightarrow> Point" where
  "polygonCentroid vertices =
     (if length vertices < 3 then \<lparr>px = 0, py = 0\<rparr>
      else let A = signedPolygonArea vertices in
        if \<bar>A\<bar> < 1 / 10 ^ 12 then \<lparr>px = 0, py = 0\<rparr>
        else let (cx, cy) =
                   fold (\<lambda>(vi, vj) (cx, cy).
                           (cx + (px vi + px vj) * cross vi vj, cy + (py vi + py vj) * cross vi vj))
                        (cyclicPairs vertices) (0, 0)
             in \<lparr>px = cx / (6 * A), py = cy / (6 * A)\<rparr>)"

definition polygonIxOrigin :: "Point list \<Rightarrow> real" where
  "polygonIxOrigin vertices =
     (if length vertices < 3 then 0
      else fold (\<lambda>(vi, vj) I. I + ((py vi)\<^sup>2 + py vi * py vj + (py vj)\<^sup>2) * cross vi vj)
                (cyclicPairs vertices) 0 / 12)"

definition polygonIyOrigin :: "Point list \<Rightarrow> real" where
  "polygonIyOrigin vertices =
     (if length vertices < 3 then 0
      else fold (\<lambda>(vi, vj) I. I + ((px vi)\<^sup>2 + px vi * px vj + (px vj)\<^sup>2) * cross vi vj)
                (cyclicPairs vertices) 0 / 12)"

definition polygonIxyOrigin :: "Point list \<Rightarrow> real" where
  "polygonIxyOrigin vertices =
     (if length vertices < 3 then 0
      else fold (\<lambda>(vi, vj) I.
                   I + (px vi * py vj + 2 * px vi * py vi + 2 * px vj * py vj + px vj * py vi)
                       * cross vi vj)
                (cyclicPairs vertices) 0 / 24)"

section \<open>Polygon clipper\<close>

definition isInside :: "Point \<Rightarrow> real \<Rightarrow> direction \<Rightarrow> keepSide \<Rightarrow> bool" where
  "isInside point cutValue dir side =
     (let val = (if dir = horizontal then py point else px point)
      in if side = below then val \<le> cutValue else val \<ge> cutValue)"

definition intersect :: "Point \<Rightarrow> Point \<Rightarrow> real \<Rightarrow> direction \<Rightarrow> Point" where
  "intersect p1 p2 cutValue dir =
     (if dir = horizontal then
        (if \<bar>py p2 - py p1\<bar> < 1 / 10 ^ 12 then p1
         else let t = (cutValue - py p1) / (py p2 - py p1)
              in \<lparr>px = px p1 + t * (px p2 - px p1), py = cutValue\<rparr>)
      else
        (if \<bar>px p2 - px p1\<bar> < 1 / 10 ^ 12 then p1
         else let t = (cutValue - px p1) / (px p2 - px p1)
              in \<lparr>px = cutValue, py = py p1 + t * (py p2 - py p1)\<rparr>))"

text \<open>The body of the loop of \<open>clipPolygon\<close>: what one edge pushes onto \<open>output\<close>.\<close>

definition clipEdge :: "real \<Rightarrow> direction \<Rightarrow> keepSide \<Rightarrow> Point \<times> Point \<Rightarrow> Point list" where
  "clipEdge cutValue dir side e =
     (let current = fst e; next = snd e;
          currentInside = isInside current cutValue dir side;
          nextInside = isInside next cutValue dir side
      in if currentInside then
           (if \<not> nextInside then [current, intersect current next cutValue dir] else [current])
         else if nextInside then [intersect current next cutValue dir]
         else [])"

definition clipPolygon :: "Point list \<Rightarrow> real \<Rightarrow> direction \<Rightarrow> keepSide \<Rightarrow> Point list" where
  "clipPolygon vertices cutValue dir side =
     (if length vertices < 3 then []
      else fold (\<lambda>e output. output @ clipEdge cutValue dir side e) (cyclicPairs vertices) [])"

section \<open>Winding normalization\<close>

definition ensureCCW :: "Point list \<Rightarrow> Point list" where
  "ensureCCW vertices = (if signedPolygonArea vertices < 0 then rev vertices else vertices)"

definition ensureCW :: "Point list \<Rightarrow> Point list" where
  "ensureCW vertices = (if signedPolygonArea vertices > 0 then rev vertices else vertices)"

section \<open>Elastic properties\<close>

text \<open>
  \<open>Math.sqrt\<close> of a negative number is \<open>NaN\<close>: \<open>None\<close> here. \<open>Math.atan2\<close> is the
  two-argument arctangent of the language's library.
\<close>

definition Math_sqrt :: "real \<Rightarrow> real option" where
  "Math_sqrt v = (if v < 0 then None else Some (sqrt v))"

definition Math_atan2 :: "real \<Rightarrow> real \<Rightarrow> real" where
  "Math_atan2 b a =
     (if a > 0 then arctan (b / a)
      else if a < 0 then (if b \<ge> 0 then arctan (b / a) + pi else arctan (b / a) - pi)
      else if b > 0 then pi / 2
      else if b < 0 then - pi / 2
      else 0)"

text \<open>
  The scans for the extreme values start from \<open>-Infinity\<close> (for a maximum) and from
  \<open>Infinity\<close> (for a minimum). The sentinel is \<open>None\<close> here: every number is greater
  than \<open>-Infinity\<close> and less than \<open>Infinity\<close>, so the first value scanned replaces it.
\<close>

definition scanMax :: "real list \<Rightarrow> real option" where
  "scanMax ds =
     fold (\<lambda>d m. case m of None \<Rightarrow> Some d | Some m' \<Rightarrow> if d > m' then Some d else Some m') ds None"

definition scanMin :: "real list \<Rightarrow> real option" where
  "scanMin ds =
     fold (\<lambda>d m. case m of None \<Rightarrow> Some d | Some m' \<Rightarrow> if d < m' then Some d else Some m') ds None"

text \<open>
  A section modulus is \<^verbatim>\<open>Math.abs(d) > 1e-12 ? I / Math.abs(d) : 0\<close> for the extreme
  distance \<open>d\<close>. Were \<open>d\<close> still the sentinel, its magnitude would be \<open>Infinity\<close> and
  the quotient 0.
\<close>

definition sectionModulus :: "real \<Rightarrow> real option \<Rightarrow> real" where
  "sectionModulus I ext =
     (case ext of None \<Rightarrow> 0
      | Some d \<Rightarrow> if \<bar>d\<bar> > 1 / 10 ^ 12 then I / \<bar>d\<bar> else 0)"

definition zeroElasticProps :: ElasticProperties where
  "zeroElasticProps =
     \<lparr>area = 0, centroidX = 0, centroidY = 0, Ix = 0, Iy = 0, Ixy = 0,
      Ix_principal = 0, Iy_principal = 0, theta_principal = 0,
      Sx_top = 0, Sx_bot = 0, Sy_left = 0, Sy_right = 0, rx = Some 0, ry = Some 0\<rparr>"

text \<open>
  \<open>computeElasticProperties\<close> is its two lines of winding normalization followed by
  \<open>elasticBody\<close>, the rest of the function's body, on the normalized lists.
\<close>

definition elasticBody :: "Point list \<Rightarrow> Point list list \<Rightarrow> ElasticProperties" where
  "elasticBody outer hs =
     (let outerArea = polygonArea outer;
          holeAreas = map polygonArea hs;
          A = outerArea - fold (\<lambda>a s. s + a) holeAreas 0
      in if A < 1 / 10 ^ 12 then zeroElasticProps
         else
           let outerCentroid = polygonCentroid outer;
               (Qx, Qy) =
                 fold (\<lambda>(h, ha) (Qx, Qy).
                         let hc = polygonCentroid h in (Qx - ha * py hc, Qy - ha * px hc))
                      (zip hs holeAreas)
                      (outerArea * py outerCentroid, outerArea * px outerCentroid);
               cX = Qy / A;
               cY = Qx / A;
               (IxOrigin, IyOrigin, IxyOrigin) =
                 fold (\<lambda>hole (a, b, c).
                         (a - \<bar>polygonIxOrigin hole\<bar>, b - \<bar>polygonIyOrigin hole\<bar>,
                          c - polygonIxyOrigin hole))
                      hs
                      (\<bar>polygonIxOrigin outer\<bar>, \<bar>polygonIyOrigin outer\<bar>, polygonIxyOrigin outer);
               Ix' = IxOrigin - A * cY\<^sup>2;
               Iy' = IyOrigin - A * cX\<^sup>2;
               Ixy' = IxyOrigin - A * cX * cY;
               Iavg = (Ix' + Iy') / 2;
               Idiff = (Ix' - Iy') / 2;
               R = sqrt (Idiff\<^sup>2 + Ixy'\<^sup>2);
               theta = (if \<bar>Ixy'\<bar> > 1 / 10 ^ 12 then Math_atan2 (- Ixy') Idiff / 2 else 0);
               allVertices = concat (outer # hs);
               yMax = scanMax (map (\<lambda>v. py v - cY) allVertices);
               yMin = scanMin (map (\<lambda>v. py v - cY) allVertices);
               xMax = scanMax (map (\<lambda>v. px v - cX) allVertices);
               xMin = scanMin (map (\<lambda>v. px v - cX) allVertices)
           in \<lparr>area = A, centroidX = cX, centroidY = cY, Ix = Ix', Iy = Iy', Ixy = Ixy',
               Ix_principal = Iavg + R, Iy_principal = Iavg - R, theta_principal = theta,
               Sx_top = sectionModulus Ix' yMax, Sx_bot = sectionModulus Ix' yMin,
               Sy_left = sectionModulus Iy' xMin, Sy_right = sectionModulus Iy' xMax,
               rx = Math_sqrt (Ix' / A), ry = Math_sqrt (Iy' / A)\<rparr>)"

definition computeElasticProperties :: "CrossSection \<Rightarrow> ElasticProperties" where
  "computeElasticProperties sec =
     (let outer = ensureCCW (outerBoundary sec);
          hs = map ensureCW (holes sec)
      in elasticBody outer hs)"

section \<open>Plastic properties\<close>

definition computeNetArea :: "Point list \<Rightarrow> Point list list \<Rightarrow> real" where
  "computeNetArea outer hs = fold (\<lambda>hole a. a - polygonArea hole) hs (polygonArea outer)"

definition computeAreaOneSide ::
  "Point list \<Rightarrow> Point list list \<Rightarrow> real \<Rightarrow> direction \<Rightarrow> keepSide \<Rightarrow> real" where
  "computeAreaOneSide outer hs cutValue dir side =
     fold (\<lambda>hole a. a - polygonArea (clipPolygon hole cutValue dir side)) hs
          (polygonArea (clipPolygon outer cutValue dir side))"

definition firstMomentAboutAxis :: "Point list \<Rightarrow> real \<Rightarrow> direction \<Rightarrow> real" where
  "firstMomentAboutAxis vertices axisValue dir =
     (if length vertices < 3 then 0
      else let A = polygonArea vertices; c = polygonCentroid vertices
           in if dir = horizontal then A * (py c - axisValue) else A * (px c - axisValue))"

definition computePlasticModulus ::
  "Point list \<Rightarrow> Point list list \<Rightarrow> real \<Rightarrow> direction \<Rightarrow> real" where
  "computePlasticModulus outer hs pna dir =
     (let outerAbove = clipPolygon outer pna dir above;
          outerBelow = clipPolygon outer pna dir below;
          (momentAbove, momentBelow) =
            fold (\<lambda>hole (mA, mB).
                    (mA - firstMomentAboutAxis (clipPolygon hole pna dir above) pna dir,
                     mB - firstMomentAboutAxis (clipPolygon hole pna dir below) pna dir))
                 hs
                 (firstMomentAboutAxis outerAbove pna dir, firstMomentAboutAxis outerBelow pna dir)
      in \<bar>momentAbove\<bar> + \<bar>momentBelow\<bar>)"

text \<open>
  The bisection loop of \<open>findPNA\<close>, from the state \<open>(iter, lo, hi)\<close>. It returns the
  value the source returns together with the value of the loop counter \<open>iter\<close> at the
  moment of the return.
\<close>

function findPNA_loop ::
  "Point list \<Rightarrow> Point list list \<Rightarrow> real \<Rightarrow> direction \<Rightarrow> nat \<Rightarrow> real \<Rightarrow> real \<Rightarrow> nat \<times> real" where
  "findPNA_loop outer hs totalArea dir iter lo hi =
     (if iter < 100 then
        (let halfArea = totalArea / 2;
             mid = (lo + hi) / 2;
             areaBelow = computeAreaOneSide outer hs mid dir below
         in if \<bar>areaBelow - halfArea\<bar> < totalArea * (1 / 10 ^ 10) then (iter, mid)
            else if areaBelow < halfArea then findPNA_loop outer hs totalArea dir (iter + 1) mid hi
            else findPNA_loop outer hs totalArea dir (iter + 1) lo mid)
      else (iter, (lo + hi) / 2))"
  by pat_completeness auto
termination
  by (relation "measure (\<lambda>(outer, hs, totalArea, dir, iter, lo, hi). 100 - iter)") auto

declare findPNA_loop.simps [simp del]

definition findPNA ::
  "Point list \<Rightarrow> Point list list \<Rightarrow> real \<Rightarrow> real \<Rightarrow> real \<Rightarrow> direction \<Rightarrow> real" where
  "findPNA outer hs totalArea minVal maxVal dir =
     snd (findPNA_loop outer hs totalArea dir 0 minVal maxVal)"

text \<open>
  The bounding box is scanned from the sentinels \<open>Infinity\<close> and \<open>-Infinity\<close>. A scan
  of no vertex at all would leave the sentinels and make the axes \<open>NaN\<close>; that result
  is \<open>None\<close> here, and \<open>computePlasticProperties_defined\<close> below shows that it does
  not occur.
\<close>

definition computePlasticProperties :: "CrossSection \<Rightarrow> PlasticProperties option" where
  "computePlasticProperties sec =
     (let outer = ensureCCW (outerBoundary sec);
          hs = map ensureCW (holes sec);
          totalArea = computeNetArea outer hs
      in if totalArea < 1 / 10 ^ 12 then Some \<lparr>pnaX = 0, pnaY = 0, Zx = 0, Zy = 0\<rparr>
         else
           let allVerts = concat (outer # hs)
           in case (scanMin (map py allVerts), scanMax (map py allVerts),
                    scanMin (map px allVerts), scanMax (map px allVerts)) of
                (Some yMin, Some yMax, Some xMin, Some xMax) \<Rightarrow>
                  let pX = findPNA outer hs totalArea yMin yMax horizontal;
                      zx = computePlasticModulus outer hs pX horizontal;
                      pY = findPNA outer hs totalArea xMin xMax vertical;
                      zy = computePlasticModulus outer hs pY vertical
                  in Some \<lparr>pnaX = pX, pnaY = pY, Zx = zx, Zy = zy\<rparr>
              | _ \<Rightarrow> None)"

section \<open>Facade\<close>

definition computeSectionProperties :: "CrossSection \<Rightarrow> SectionProperties" where
  "computeSectionProperties sec =
     (let e = computeElasticProperties sec;
          p = computePlasticProperties sec
      in \<lparr>elastic = e, plastic = p\<rparr>)"

section \<open>The store\<close>

text \<open>
  For the effects of the program, arrays and objects have identity: a reference is an
  index into the store, a list of objects. A \<open>Point[]\<close> and a \<open>Point[][]\<close> hold the
  references of their elements; a new object is put at the end of the store. The functions
  ending in \<open>_h\<close> are the functions of the source with every array copy, array
  allocation, object literal, \<open>push\<close> and \<open>reverse\<close> written out as a change of the store.
  A function of the source that only reads (\<open>signedPolygonArea\<close>, \<open>polygonArea\<close>, the
  moments, \<open>computeNetArea\<close>, \<open>isInside\<close>) is applied to the values read from the
  store. The types of the source exclude a reference to an object of the wrong kind; the
  readers return an empty array or the origin there.
\<close>

type_synonym ref = nat

datatype obj =
    PointObj Point
  | ArrayObj "ref list"
  | NumArrayObj "real list"
  | SectionObj ref ref
  | ElasticObj ElasticProperties
  | PlasticObj PlasticProperties
  | PropsObj SectionProperties

type_synonym heap = "obj list"

definition alloc :: "obj \<Rightarrow> heap \<Rightarrow> ref \<times> heap" where
  "alloc ob h = (length h, h @ [ob])"

definition getArray :: "heap \<Rightarrow> ref \<Rightarrow> ref list" where
  "getArray h r = (if r < length h then (case h ! r of ArrayObj rs \<Rightarrow> rs | _ \<Rightarrow> []) else [])"

definition getPoint :: "heap \<Rightarrow> ref \<Rightarrow> Point" where
  "getPoint h r =
     (if r < length h then (case h ! r of PointObj p \<Rightarrow> p | _ \<Rightarrow> \<lparr>px = 0, py = 0\<rparr>)
      else \<lparr>px = 0, py = 0\<rparr>)"

definition getSection :: "heap \<Rightarrow> ref \<Rightarrow> ref \<times> ref" where
  "getSection h r =
     (if r < length h then (case h ! r of SectionObj ob hl \<Rightarrow> (ob, hl) | _ \<Rightarrow> (r, r)) else (r, r))"

definition points :: "heap \<Rightarrow> ref \<Rightarrow> Point list" where
  "points h r = map (getPoint h) (getArray h r)"

definition polys :: "heap \<Rightarrow> ref \<Rightarrow> Point list list" where
  "polys h r = map (points h) (getArray h r)"

definition push :: "ref \<Rightarrow> ref \<Rightarrow> heap \<Rightarrow> heap" where
  "push arr v h = h[arr := ArrayObj (getArray h arr @ [v])]"

definition reverseInPlace :: "ref \<Rightarrow> heap \<Rightarrow> heap" where
  "reverseInPlace arr h = h[arr := ArrayObj (rev (getArray h arr))]"

definition copyArray :: "ref \<Rightarrow> heap \<Rightarrow> ref \<times> heap" where
  "copyArray arr h = alloc (ArrayObj (getArray h arr)) h"

definition ensureCCW_h :: "ref \<Rightarrow> heap \<Rightarrow> ref \<times> heap" where
  "ensureCCW_h vertices h =
     (if signedPolygonArea (points h vertices) < 0
      then (let (c, h1) = copyArray vertices h in (c, reverseInPlace c h1))
      else (vertices, h))"

definition ensureCW_h :: "ref \<Rightarrow> heap \<Rightarrow> ref \<times> heap" where
  "ensureCW_h vertices h =
     (if signedPolygonArea (points h vertices) > 0
      then (let (c, h1) = copyArray vertices h in (c, reverseInPlace c h1))
      else (vertices, h))"

fun mapHeap :: "(ref \<Rightarrow> heap \<Rightarrow> ref \<times> heap) \<Rightarrow> ref list \<Rightarrow> heap \<Rightarrow> ref list \<times> heap" where
  "mapHeap f [] h = ([], h)"
| "mapHeap f (r # rs) h =
     (let (r', h1) = f r h; (rs', h2) = mapHeap f rs h1 in (r' # rs', h2))"

definition normalizeHoles_h :: "ref \<Rightarrow> heap \<Rightarrow> ref \<times> heap" where
  "normalizeHoles_h hl h =
     (let (rs, h1) = mapHeap ensureCW_h (getArray h hl) h in alloc (ArrayObj rs) h1)"

definition polygonCentroid_h :: "ref \<Rightarrow> heap \<Rightarrow> ref \<times> heap" where
  "polygonCentroid_h vertices h = alloc (PointObj (polygonCentroid (points h vertices))) h"

definition flatVertices_h :: "ref \<Rightarrow> ref \<Rightarrow> heap \<Rightarrow> ref \<times> heap" where
  "flatVertices_h outer hs h =
     (let (nested, h1) = alloc (ArrayObj (outer # getArray h hs)) h
      in alloc (ArrayObj (concat (map (getArray h1) (getArray h1 nested)))) h1)"

definition computeElasticProperties_h :: "ref \<Rightarrow> heap \<Rightarrow> ElasticProperties \<times> heap" where
  "computeElasticProperties_h sec h =
     (let (ob, hl) = getSection h sec;
          (outer, h1) = ensureCCW_h ob h;
          (hs, h2) = normalizeHoles_h hl h1;
          outerArea = polygonArea (points h2 outer);
          (holeAreas, h3) = alloc (NumArrayObj (map polygonArea (polys h2 hs))) h2;
          A = outerArea - fold (\<lambda>a s. s + a) (map polygonArea (polys h2 hs)) 0;
          e = elasticBody (points h3 outer) (polys h3 hs)
      in if A < 1 / 10 ^ 12 then (e, snd (alloc (ElasticObj e) h3))
         else
           let (oc, h4) = polygonCentroid_h outer h3;
               h5 = fold (\<lambda>hole hh. snd (polygonCentroid_h hole hh)) (getArray h4 hs) h4;
               (av, h6) = flatVertices_h outer hs h5
           in (e, snd (alloc (ElasticObj e) h6)))"

definition intersect_h :: "ref \<Rightarrow> ref \<Rightarrow> real \<Rightarrow> direction \<Rightarrow> heap \<Rightarrow> ref \<times> heap" where
  "intersect_h p1 p2 cutValue dir h =
     alloc (PointObj (intersect (getPoint h p1) (getPoint h p2) cutValue dir)) h"

definition clipStep :: "real \<Rightarrow> direction \<Rightarrow> keepSide \<Rightarrow> ref \<Rightarrow> ref \<times> ref \<Rightarrow> heap \<Rightarrow> heap" where
  "clipStep cutValue dir side output e h =
     (let current = fst e; next = snd e;
          currentInside = isInside (getPoint h current) cutValue dir side;
          nextInside = isInside (getPoint h next) cutValue dir side
      in if currentInside then
           (let h1 = push output current h
            in if \<not> nextInside
               then (let (q, h2) = intersect_h current next cutValue dir h1 in push output q h2)
               else h1)
         else if nextInside
           then (let (q, h1) = intersect_h current next cutValue dir h in push output q h1)
         else h)"

definition clipPolygon_h :: "ref \<Rightarrow> real \<Rightarrow> direction \<Rightarrow> keepSide \<Rightarrow> heap \<Rightarrow> ref \<times> heap" where
  "clipPolygon_h vertices cutValue dir side h =
     (if length (getArray h vertices) < 3 then alloc (ArrayObj []) h
      else let (output, h1) = alloc (ArrayObj []) h
           in (output, fold (clipStep cutValue dir side output) (cyclicPairs (getArray h vertices)) h1))"

definition computeAreaOneSide_h ::
  "ref \<Rightarrow> ref \<Rightarrow> real \<Rightarrow> direction \<Rightarrow> keepSide \<Rightarrow> heap \<Rightarrow> real \<times> heap" where
  "computeAreaOneSide_h outer hs cutValue dir side h =
     (let (outerClipped, h1) = clipPolygon_h outer cutValue dir side h
      in fold (\<lambda>hole (a, hh).
                 let (holeClipped, hh') = clipPolygon_h hole cutValue dir side hh
                 in (a - polygonArea (points hh' holeClipped), hh'))
              (getArray h1 hs) (polygonArea (points h1 outerClipped), h1))"

definition firstMomentAboutAxis_h :: "ref \<Rightarrow> real \<Rightarrow> direction \<Rightarrow> heap \<Rightarrow> real \<times> heap" where
  "firstMomentAboutAxis_h vertices axisValue dir h =
     (if length (getArray h vertices) < 3 then (0, h)
      else let A = polygonArea (points h vertices);
               (cr, h1) = polygonCentroid_h vertices h;
               c = getPoint h1 cr
           in (if dir = horizontal then A * (py c - axisValue) else A * (px c - axisValue), h1))"

definition momentsOfClipped_h ::
  "ref \<Rightarrow> real \<Rightarrow> direction \<Rightarrow> heap \<Rightarrow> (real \<times> real) \<times> heap" where
  "momentsOfClipped_h vertices pna dir h =
     (let (ab, h1) = clipPolygon_h vertices pna dir above h;
          (bl, h2) = clipPolygon_h vertices pna dir below h1;
          (mA, h3) = firstMomentAboutAxis_h ab pna dir h2;
          (mB, h4) = firstMomentAboutAxis_h bl pna dir h3
      in ((mA, mB), h4))"

definition computePlasticModulus_h :: "ref \<Rightarrow> ref \<Rightarrow> real \<Rightarrow> direction \<Rightarrow> heap \<Rightarrow> real \<times> heap" where
  "computePlasticModulus_h outer hs pna dir h =
     (let ((mA0, mB0), h1) = momentsOfClipped_h outer pna dir h;
          ((momentAbove, momentBelow), h2) =
            fold (\<lambda>hole ((mA, mB), hh).
                    let ((a, b), hh') = momentsOfClipped_h hole pna dir hh
                    in ((mA - a, mB - b), hh'))
                 (getArray h1 hs) ((mA0, mB0), h1)
      in (\<bar>momentAbove\<bar> + \<bar>momentBelow\<bar>, h2))"

function findPNA_loop_h ::
  "ref \<Rightarrow> ref \<Rightarrow> real \<Rightarrow> direction \<Rightarrow> nat \<Rightarrow> real \<Rightarrow> real \<Rightarrow> heap \<Rightarrow> real \<times> heap" where
  "findPNA_loop_h outer hs totalArea dir iter lo hi h =
     (if iter < 100 then
        (let halfArea = totalArea / 2;
             mid = (lo + hi) / 2;
             (areaBelow, h1) = computeAreaOneSide_h outer hs mid dir below h
         in if \<bar>areaBelow - halfArea\<bar> < totalArea * (1 / 10 ^ 10) then (mid, h1)
            else if areaBelow < halfArea
              then findPNA_loop_h outer hs totalArea dir (iter + 1) mid hi h1
              else findPNA_loop_h outer hs totalArea dir (iter + 1) lo mid h1)
      else ((lo + hi) / 2, h))"
  by pat_completeness auto
termination
  by (relation "measure (\<lambda>(outer, hs, totalArea, dir, iter, lo, hi, h). 100 - iter)") auto

declare findPNA_loop_h.simps [simp del]

definition findPNA_h ::
  "ref \<Rightarrow> ref \<Rightarrow> real \<Rightarrow> real \<Rightarrow> real \<Rightarrow> direction \<Rightarrow> heap \<Rightarrow> real \<times> heap" where
  "findPNA_h outer hs totalArea minVal maxVal dir h =
     findPNA_loop_h outer hs totalArea dir 0 minVal maxVal h"

definition computePlasticProperties_h :: "ref \<Rightarrow> heap \<Rightarrow> PlasticProperties option \<times> heap" where
  "computePlasticProperties_h sec h =
     (let (ob, hl) = getSection h sec;
          (outer, h1) = ensureCCW_h ob h;
          (hs, h2) = normalizeHoles_h hl h1;
          totalArea = computeNetArea (points h2 outer) (polys h2 hs)
      in if totalArea < 1 / 10 ^ 12
         then (Some \<lparr>pnaX = 0, pnaY = 0, Zx = 0, Zy = 0\<rparr>,
               snd (alloc (PlasticObj \<lparr>pnaX = 0, pnaY = 0, Zx = 0, Zy = 0\<rparr>) h2))
         else
           let (av, h3) = flatVertices_h outer hs h2
           in case (scanMin (map py (points h3 av)), scanMax (map py (points h3 av)),
                    scanMin (map px (points h3 av)), scanMax (map px (points h3 av))) of
                (Some yMin, Some yMax, Some xMin, Some xMax) \<Rightarrow>
                  let (pX, h4) = findPNA_h outer hs totalArea yMin yMax horizontal h3;
                      (zx, h5) = computePlasticModulus_h outer hs pX horizontal h4;
                      (pY, h6) = findPNA_h outer hs totalArea xMin xMax vertical h5;
                      (zy, h7) = computePlasticModulus_h outer hs pY vertical h6;
                      p = \<lparr>pnaX = pX, pnaY = pY, Zx = zx, Zy = zy\<rparr>
                  in (Some p, snd (alloc (PlasticObj p) h7))
              | _ \<Rightarrow> (None, h3))"

definition computeSectionProperties_h :: "ref \<Rightarrow> heap \<Rightarrow> SectionProperties \<times> heap" where
  "computeSectionProperties_h sec h =
     (let (e, h1) = computeElasticProperties_h sec h;
          (p, h2) = computePlasticProperties_h sec h1
      in (\<lparr>elastic = e, plastic = p\<rparr>, snd (alloc (PropsObj \<lparr>elastic = e, plastic = p\<rparr>) h2)))"

text \<open>
  A store is closed when every reference an array or a cross section holds is to an object
  of the store. \<open>sectionAt\<close> is the value of the cross section at a reference: the
  points of its outer boundary and of its holes, in order. \<open>grows\<close> and \<open>clipInv\<close> are
  used in the proofs: a closed store that extends another, and the state of the loop of
  \<open>clipPolygon\<close> (the output array holds references to points read as \<open>acc\<close>).
\<close>

definition closedObj :: "nat \<Rightarrow> obj \<Rightarrow> bool" where
  "closedObj n ob =
     (case ob of ArrayObj rs \<Rightarrow> list_all (\<lambda>r. r < n) rs
      | SectionObj ob hl \<Rightarrow> ob < n \<and> hl < n
      | _ \<Rightarrow> True)"

definition closedHeap :: "heap \<Rightarrow> bool" where
  "closedHeap h = list_all (closedObj (length h)) h"

definition clipInv :: "heap \<Rightarrow> ref \<Rightarrow> heap \<Rightarrow> Point list \<Rightarrow> bool" where
  "clipInv h0 output h acc \<longleftrightarrow>
     prefix h0 h \<and> closedHeap h \<and> length h0 \<le> output \<and> output < length h
     \<and> (\<exists>rs. h ! output = ArrayObj rs \<and> (\<forall>r \<in> set rs. r \<noteq> output) \<and> map (getPoint h) rs = acc)"

definition grows :: "heap \<Rightarrow> heap \<Rightarrow> bool" where
  "grows h0 h \<longleftrightarrow> prefix h0 h \<and> closedHeap h"

definition sectionAt :: "heap \<Rightarrow> ref \<Rightarrow> CrossSection" where
  "sectionAt h sec =
     \<lparr>outerBoundary = points h (fst (getSection h sec)), holes = polys h (snd (getSection h sec))\<rparr>"

definition validSection :: "heap \<Rightarrow> ref \<Rightarrow> bool" where
  "validSection h sec \<longleftrightarrow>
     closedHeap h \<and> sec < length h \<and> (case h ! sec of SectionObj ob hl \<Rightarrow> True | _ \<Rightarrow> False)"

section \<open>Notions used in the statements\<close>

text \<open>
  The vertices both engines scan, \<^verbatim>\<open>[outer, ...holes].flat()\<close>, and the net area: the
  value both engines compare with \<^verbatim>\<open>1e-12\<close> (\<open>elastic_area_netArea\<close> and
  \<open>computeNetArea_netArea\<close> below).
\<close>

definition allVertices :: "CrossSection \<Rightarrow> Point list" where
  "allVertices sec = concat (ensureCCW (outerBoundary sec) # map ensureCW (holes sec))"

definition netArea :: "CrossSection \<Rightarrow> real" where
  "netArea sec = polygonArea (outerBoundary sec) - sum_list (map polygonArea (holes sec))"

text \<open>
  The body of the bisection loop in two parts: the test that makes it return the midpoint,
  and the bracket it goes on with otherwise. \<open>pnaBracket \<dots> k\<close> is the bracket
  \<open>(lo, hi)\<close> after \<open>k\<close> iterations that did not return.
\<close>

definition midpoint :: "real \<times> real \<Rightarrow> real" where
  "midpoint b = (fst b + snd b) / 2"

definition pnaConverged ::
  "Point list \<Rightarrow> Point list list \<Rightarrow> real \<Rightarrow> direction \<Rightarrow> real \<Rightarrow> bool" where
  "pnaConverged outer hs totalArea dir mid \<longleftrightarrow>
     \<bar>computeAreaOneSide outer hs mid dir below - totalArea / 2\<bar> < totalArea * (1 / 10 ^ 10)"

definition pnaNarrow ::
  "Point list \<Rightarrow> Point list list \<Rightarrow> real \<Rightarrow> direction \<Rightarrow> real \<times> real \<Rightarrow> real \<times> real" where
  "pnaNarrow outer hs totalArea dir b =
     (if computeAreaOneSide outer hs (midpoint b) dir below < totalArea / 2
      then (midpoint b, snd b) else (fst b, midpoint b))"

definition pnaBracket ::
  "Point list \<Rightarrow> Point list list \<Rightarrow> real \<Rightarrow> direction \<Rightarrow> real \<Rightarrow> real \<Rightarrow> nat \<Rightarrow> real \<times> real" where
  "pnaBracket outer hs totalArea dir minVal maxVal k =
     (pnaNarrow outer hs totalArea dir ^^ k) (minVal, maxVal)"

text \<open>
  The property "both plastic neutral axes lie within the vertex range of the section":
  \<open>pnaX\<close> between the least and the greatest \<open>y\<close> of the vertices, \<open>pnaY\<close> between
  the least and the greatest \<open>x\<close>.
\<close>

definition pnaWithinRange :: "CrossSection \<Rightarrow> bool" where
  "pnaWithinRange sec =
     (case (computePlasticProperties sec,
            scanMin (map py (allVertices sec)), scanMax (map py (allVertices sec)),
            scanMin (map px (allVertices sec)), scanMax (map px (allVertices sec))) of
        (Some p, Some yMin, Some yMax, Some xMin, Some xMax) \<Rightarrow>
          yMin \<le> pnaX p \<and> pnaX p \<le> yMax \<and> xMin \<le> pnaY p \<and> pnaY p \<le> xMax
      | _ \<Rightarrow> False)"

section \<open>Notions for the two fragments of a clipped polygon\<close>

text \<open>
  \<open>across\<close> is the coordinate that \<open>isInside\<close> compares with the cut value (\<open>val\<close> in
  the source). \<open>spansGuard\<close> holds of an edge when \<open>clipPolygon\<close> calls \<open>intersect\<close> on
  it for neither side, or when the edge extends by at least \<^verbatim>\<open>1e-12\<close> across the cut, so
  that \<open>intersect\<close> does not return its first end point in place of the intersection.
  \<open>guardFree\<close> holds of a polygon and a cut when every edge is so.
\<close>

definition across :: "direction \<Rightarrow> Point \<Rightarrow> real" where
  "across dir p = (if dir = horizontal then py p else px p)"

definition spansGuard :: "real \<Rightarrow> direction \<Rightarrow> Point \<times> Point \<Rightarrow> bool" where
  "spansGuard c dir e =
     (if isInside (fst e) c dir below = isInside (snd e) c dir below
         \<and> isInside (fst e) c dir above = isInside (snd e) c dir above
      then True
      else \<bar>across dir (snd e) - across dir (fst e)\<bar> \<ge> 1 / 10 ^ 12)"

definition guardFree :: "Point list \<Rightarrow> real \<Rightarrow> direction \<Rightarrow> bool" where
  "guardFree vertices c dir = list_all (spansGuard c dir) (cyclicPairs vertices)"

text \<open>
  For the proof: the shoelace term of two points about a point of the cut line; the edges,
  the shoelace sum and the clipper's output along an open path of vertices; the part of
  the shoelace sum that one edge and one side contribute; and the output along a path
  together with the last vertex, when that vertex is inside.
\<close>

definition crossAbout :: "real \<Rightarrow> direction \<Rightarrow> Point \<Rightarrow> Point \<Rightarrow> real" where
  "crossAbout c dir p q =
     (if dir = horizontal then px p * (py q - c) - px q * (py p - c)
      else (px p - c) * py q - (px q - c) * py p)"

fun pathPairs :: "'a list \<Rightarrow> ('a \<times> 'a) list" where
  "pathPairs (a # b # r) = (a, b) # pathPairs (b # r)"
| "pathPairs _ = []"

fun pathSum :: "(Point \<Rightarrow> Point \<Rightarrow> real) \<Rightarrow> Point list \<Rightarrow> real" where
  "pathSum w (a # b # r) = w a b + pathSum w (b # r)"
| "pathSum w _ = 0"

fun clipPath :: "real \<Rightarrow> direction \<Rightarrow> keepSide \<Rightarrow> Point list \<Rightarrow> Point list" where
  "clipPath c dir side (a # b # r) = clipEdge c dir side (a, b) @ clipPath c dir side (b # r)"
| "clipPath c dir side _ = []"

definition edgeSum :: "real \<Rightarrow> direction \<Rightarrow> keepSide \<Rightarrow> Point \<times> Point \<Rightarrow> real" where
  "edgeSum c dir side e =
     (if isInside (fst e) c dir side then
        (if isInside (snd e) c dir side then crossAbout c dir (fst e) (snd e)
         else crossAbout c dir (fst e) (intersect (fst e) (snd e) c dir))
      else if isInside (snd e) c dir side then crossAbout c dir (intersect (fst e) (snd e) c dir) (snd e)
      else 0)"

fun pathEdgeSum :: "real \<Rightarrow> direction \<Rightarrow> keepSide \<Rightarrow> Point list \<Rightarrow> real" where
  "pathEdgeSum c dir side (a # b # r) = edgeSum c dir side (a, b) + pathEdgeSum c dir side (b # r)"
| "pathEdgeSum c dir side _ = 0"

definition completed :: "real \<Rightarrow> direction \<Rightarrow> keepSide \<Rightarrow> Point list \<Rightarrow> Point list" where
  "completed c dir side p =
     clipPath c dir side p @ (if isInside (last p) c dir side then [last p] else [])"

section \<open>Example inputs\<close>

text \<open>
  A hole that lies outside the outer boundary (the core does not check that it lies
  inside), a triangle that is long and thin, and three points on a line.
\<close>

definition holeBelow :: "Point list" where
  "holeBelow = [\<lparr>px = 0, py = -4\<rparr>, \<lparr>px = 8, py = -4\<rparr>, \<lparr>px = 8, py = 0\<rparr>, \<lparr>px = 0, py = 0\<rparr>]"

definition thinTriangle :: "Point list" where
  "thinTriangle =
     [\<lparr>px = 0, py = 0\<rparr>, \<lparr>px = 4 * 10 ^ 12, py = 0\<rparr>, \<lparr>px = 0, py = 1 / (2 * 10 ^ 12)\<rparr>]"

definition diagonalPoints :: "Point list" where
  "diagonalPoints = [\<lparr>px = 1, py = 1\<rparr>, \<lparr>px = 2, py = 2\<rparr>, \<lparr>px = 3, py = 3\<rparr>]"

text \<open>A store with one cross section: the rectangle, wound clockwise, and no holes.\<close>

definition cwHeap :: heap where
  "cwHeap =
     [PointObj \<lparr>px = 0, py = 8\<rparr>, PointObj \<lparr>px = 10, py = 8\<rparr>,
      PointObj \<lparr>px = 10, py = 0\<rparr>, PointObj \<lparr>px = 0, py = 0\<rparr>,
      ArrayObj [0, 1, 2, 3], ArrayObj [], SectionObj 4 5]"

text \<open>A polygon in the shape of a U, 4e13 wide and 2e-13 high, of area 5.\<close>

definition thinU :: "Point list" where
  "thinU =
     [\<lparr>px = 0, py = - 1 / 10 ^ 13\<rparr>, \<lparr>px = 4 * 10 ^ 13, py = - 1 / 10 ^ 13\<rparr>,
      \<lparr>px = 4 * 10 ^ 13, py = 1 / 10 ^ 13\<rparr>, \<lparr>px = 3 * 10 ^ 13, py = 1 / 10 ^ 13\<rparr>,
      \<lparr>px = 3 * 10 ^ 13, py = - 1 / (2 * 10 ^ 13)\<rparr>, \<lparr>px = 10 ^ 13, py = - 1 / (2 * 10 ^ 13)\<rparr>,
      \<lparr>px = 10 ^ 13, py = 1 / 10 ^ 13\<rparr>, \<lparr>px = 0, py = 1 / 10 ^ 13\<rparr>]"

definition rect_10_8 :: "Point list" where
  "rect_10_8 = [\<lparr>px = 0, py = 0\<rparr>, \<lparr>px = 10, py = 0\<rparr>, \<lparr>px = 10, py = 8\<rparr>, \<lparr>px = 0, py = 8\<rparr>]"

section \<open>Degenerate vertex lists\<close>

text \<open>
  C7. For a vertex list with fewer than three points every primitive of the polygon
  algebra returns its zero value: the signed area, the area and the three moments about
  the origin are 0, the centroid is the origin, and the clipper returns the empty list.
  The model has no exceptional result: each function is total and reads no index out of
  range.
\<close>

theorem degenerate_primitives_zero:
  "length vertices < 3 \<Longrightarrow>
     signedPolygonArea vertices = 0
   \<and> polygonArea vertices = 0
   \<and> polygonIxOrigin vertices = 0
   \<and> polygonIyOrigin vertices = 0
   \<and> polygonIxyOrigin vertices = 0
   \<and> polygonCentroid vertices = \<lparr>px = 0, py = 0\<rparr>
   \<and> clipPolygon vertices cutValue dir side = []"
  by (simp add: signedPolygonArea_def polygonArea_def polygonIxOrigin_def
      polygonIyOrigin_def polygonIxyOrigin_def polygonCentroid_def clipPolygon_def)

theorem degenerate_primitives_zero_witness:
  "length [\<lparr>px = 1, py = 2\<rparr>, \<lparr>px = 3, py = 5\<rparr>] < 3
   \<and> signedPolygonArea [\<lparr>px = 1, py = 2\<rparr>, \<lparr>px = 3, py = 5\<rparr>] = 0
   \<and> polygonArea [\<lparr>px = 1, py = 2\<rparr>, \<lparr>px = 3, py = 5\<rparr>] = 0
   \<and> polygonIxOrigin [\<lparr>px = 1, py = 2\<rparr>, \<lparr>px = 3, py = 5\<rparr>] = 0
   \<and> polygonIyOrigin [\<lparr>px = 1, py = 2\<rparr>, \<lparr>px = 3, py = 5\<rparr>] = 0
   \<and> polygonIxyOrigin [\<lparr>px = 1, py = 2\<rparr>, \<lparr>px = 3, py = 5\<rparr>] = 0
   \<and> polygonCentroid [\<lparr>px = 1, py = 2\<rparr>, \<lparr>px = 3, py = 5\<rparr>] = \<lparr>px = 0, py = 0\<rparr>
   \<and> clipPolygon [\<lparr>px = 1, py = 2\<rparr>, \<lparr>px = 3, py = 5\<rparr>] 3 horizontal below = []"
  using degenerate_primitives_zero [of "[\<lparr>px = 1, py = 2\<rparr>, \<lparr>px = 3, py = 5\<rparr>]" 3 horizontal below]
  by simp

section \<open>The loops as sums over the cyclic pairs\<close>

lemma cyclicPairs_zip: "cyclicPairs vs = zip vs (rotate1 vs)"
  unfolding cyclicPairs_def
  by (rule nth_equalityI) (simp_all add: nth_rotate1 del: upt_Suc)

lemma fold_add: "fold (\<lambda>e (a::real). a + f e) es a0 = a0 + sum_list (map f es)"
  by (induction es arbitrary: a0) simp_all

lemma signedPolygonArea_sum:
  "signedPolygonArea vs =
     (if length vs < 3 then 0 else (\<Sum>(p, q)\<leftarrow>cyclicPairs vs. cross p q) / 2)"
proof -
  have "(\<lambda>(vi, vj) a. a + px vi * py vj - px vj * py vi)
        = (\<lambda>e (a::real). a + (case e of (p, q) \<Rightarrow> cross p q))"
    by (auto simp: fun_eq_iff cross_def)
  then show ?thesis by (simp add: signedPolygonArea_def fold_add)
qed

section \<open>Reversing a vertex list\<close>

lemma zip_rotate1:
  "length xs = length ys \<Longrightarrow> zip (rotate1 xs) (rotate1 ys) = rotate1 (zip xs ys)"
  by (cases xs; cases ys) simp_all

lemma rotate1_rev_rotate1: "rotate1 (rev (rotate1 vs)) = rev vs"
  by (cases vs) simp_all

lemma cyclicPairs_rev:
  "cyclicPairs (rev vs) = rotate1 (rev (map (\<lambda>(p, q). (q, p)) (cyclicPairs vs)))"
proof -
  have "zip (rotate1 vs) vs = map (\<lambda>(p, q). (q, p)) (zip vs (rotate1 vs))"
    by (rule zip_commute)
  then have "rev (map (\<lambda>(p, q). (q, p)) (cyclicPairs vs)) = zip (rev (rotate1 vs)) (rev vs)"
    by (simp add: cyclicPairs_zip zip_rev)
  then show ?thesis
    by (simp add: cyclicPairs_zip zip_rotate1 [symmetric] rotate1_rev_rotate1)
qed

lemma sum_list_rotate1: "sum_list (rotate1 (xs :: real list)) = sum_list xs"
  by (cases xs) simp_all

lemma sum_list_neg: "(\<Sum>e\<leftarrow>es. - f e) = - (\<Sum>e\<leftarrow>es. (f e :: real))"
  by (induction es) simp_all

lemma cross_sum_rev:
  "(\<Sum>(p, q)\<leftarrow>cyclicPairs (rev vs). cross p q) = - (\<Sum>(p, q)\<leftarrow>cyclicPairs vs. cross p q)"
proof -
  have sw: "(\<lambda>e. case e of (p, q) \<Rightarrow> cross p q) \<circ> (\<lambda>(p, q). (q, p))
            = (\<lambda>e. - (case e of (p, q) \<Rightarrow> cross p q))"
    by (auto simp: fun_eq_iff cross_def)
  have "(\<Sum>(p, q)\<leftarrow>cyclicPairs (rev vs). cross p q)
        = sum_list (rotate1 (rev (map (\<lambda>e. - (case e of (p, q) \<Rightarrow> cross p q)) (cyclicPairs vs))))"
    by (simp add: cyclicPairs_rev rotate1_map rev_map sw)
  also have "\<dots> = sum_list (map (\<lambda>e. - (case e of (p, q) \<Rightarrow> cross p q)) (cyclicPairs vs))"
    by (simp only: sum_list_rotate1 sum_list_rev)
  also have "\<dots> = - (\<Sum>(p, q)\<leftarrow>cyclicPairs vs. cross p q)"
    by (rule sum_list_neg)
  finally show ?thesis .
qed

lemma signedPolygonArea_rev: "signedPolygonArea (rev vs) = - signedPolygonArea vs"
  by (simp add: signedPolygonArea_sum cross_sum_rev)

lemma polygonArea_rev: "polygonArea (rev vs) = polygonArea vs"
  by (simp add: polygonArea_def signedPolygonArea_rev)

text \<open>
  In exact arithmetic: \<open>ensureCCW\<close> returns its argument when the signed area is not negative and the
  reversed list when it is negative, so the signed area of its result is never negative;
  \<open>ensureCW\<close> returns its argument when the signed area is not positive and the reversed
  list otherwise, so the signed area of its result is never positive.
\<close>

theorem ensure_winding:
  "ensureCCW V = (if signedPolygonArea V \<ge> 0 then V else rev V)
   \<and> signedPolygonArea (ensureCCW V) \<ge> 0
   \<and> ensureCW V = (if signedPolygonArea V \<le> 0 then V else rev V)
   \<and> signedPolygonArea (ensureCW V) \<le> 0"
  by (simp add: ensureCCW_def ensureCW_def signedPolygonArea_rev)

section \<open>The end-to-end scenario\<close>

lemma rect_signed: "signedPolygonArea rect_10_8 = 80"
  by (simp add: rect_10_8_def signedPolygonArea_def cyclicPairs_zip)

lemma rect_ccw: "ensureCCW rect_10_8 = rect_10_8"
  by (simp add: ensureCCW_def rect_signed)

lemma rect_centroid: "polygonCentroid rect_10_8 = \<lparr>px = 5, py = 4\<rparr>"
  by (simp add: polygonCentroid_def rect_signed) (simp add: rect_10_8_def cyclicPairs_zip cross_def)

lemma rect_Ix: "polygonIxOrigin rect_10_8 = 5120 / 3"
  by (simp add: polygonIxOrigin_def rect_10_8_def cyclicPairs_zip cross_def)

lemma rect_Iy: "polygonIyOrigin rect_10_8 = 8000 / 3"
  by (simp add: polygonIyOrigin_def rect_10_8_def cyclicPairs_zip cross_def)

lemma rect_Ixy: "polygonIxyOrigin rect_10_8 = 1600"
  by (simp add: polygonIxyOrigin_def rect_10_8_def cyclicPairs_zip cross_def)

lemma rect_elastic:
  "computeElasticProperties \<lparr>outerBoundary = rect_10_8, holes = []\<rparr> = e \<Longrightarrow>
     area e = 80 \<and> centroidX e = 5 \<and> centroidY e = 4
     \<and> Ix e = 1280 / 3 \<and> Iy e = 2000 / 3 \<and> Ixy e = 0
     \<and> Sx_top e = 320 / 3 \<and> Sx_bot e = 320 / 3 \<and> Sy_left e = 400 / 3 \<and> Sy_right e = 400 / 3"
  apply (simp add: computeElasticProperties_def elasticBody_def rect_ccw polygonArea_def rect_signed rect_centroid
        rect_Ix rect_Iy rect_Ixy Let_def)
  apply (simp add: rect_10_8_def scanMax_def scanMin_def sectionModulus_def)
  apply auto
  done

lemma rect_clip_hb:
  "clipPolygon rect_10_8 4 horizontal below
   = [\<lparr>px = 0, py = 0\<rparr>, \<lparr>px = 10, py = 0\<rparr>, \<lparr>px = 10, py = 4\<rparr>, \<lparr>px = 0, py = 4\<rparr>]"
  by (simp add: clipPolygon_def rect_10_8_def cyclicPairs_zip clipEdge_def isInside_def intersect_def)

lemma rect_clip_ha:
  "clipPolygon rect_10_8 4 horizontal above
   = [\<lparr>px = 10, py = 4\<rparr>, \<lparr>px = 10, py = 8\<rparr>, \<lparr>px = 0, py = 8\<rparr>, \<lparr>px = 0, py = 4\<rparr>]"
  by (simp add: clipPolygon_def rect_10_8_def cyclicPairs_zip clipEdge_def isInside_def intersect_def)

lemma rect_clip_vb:
  "clipPolygon rect_10_8 5 vertical below
   = [\<lparr>px = 0, py = 0\<rparr>, \<lparr>px = 5, py = 0\<rparr>, \<lparr>px = 5, py = 8\<rparr>, \<lparr>px = 0, py = 8\<rparr>]"
  by (simp add: clipPolygon_def rect_10_8_def cyclicPairs_zip clipEdge_def isInside_def intersect_def)

lemma rect_clip_va:
  "clipPolygon rect_10_8 5 vertical above
   = [\<lparr>px = 5, py = 0\<rparr>, \<lparr>px = 10, py = 0\<rparr>, \<lparr>px = 10, py = 8\<rparr>, \<lparr>px = 5, py = 8\<rparr>]"
  by (simp add: clipPolygon_def rect_10_8_def cyclicPairs_zip clipEdge_def isInside_def intersect_def)

lemma rect_pnaX: "findPNA rect_10_8 [] 80 0 8 horizontal = 4"
  by (simp add: findPNA_def findPNA_loop.simps [of _ _ _ _ 0] computeAreaOneSide_def rect_clip_hb
      polygonArea_def signedPolygonArea_def cyclicPairs_zip)

lemma rect_pnaY: "findPNA rect_10_8 [] 80 0 10 vertical = 5"
  by (simp add: findPNA_def findPNA_loop.simps [of _ _ _ _ 0] computeAreaOneSide_def rect_clip_vb
      polygonArea_def signedPolygonArea_def cyclicPairs_zip)

lemma rect_Zx: "computePlasticModulus rect_10_8 [] 4 horizontal = 160"
  by (simp add: computePlasticModulus_def rect_clip_hb rect_clip_ha firstMomentAboutAxis_def
      polygonArea_def polygonCentroid_def signedPolygonArea_def cyclicPairs_zip cross_def)

lemma rect_Zy: "computePlasticModulus rect_10_8 [] 5 vertical = 200"
  by (simp add: computePlasticModulus_def rect_clip_vb rect_clip_va firstMomentAboutAxis_def
      polygonArea_def polygonCentroid_def signedPolygonArea_def cyclicPairs_zip cross_def)

lemma rect_bbox:
  "scanMin (map py rect_10_8) = Some 0" "scanMax (map py rect_10_8) = Some 8"
  "scanMin (map px rect_10_8) = Some 0" "scanMax (map px rect_10_8) = Some 10"
  by (simp_all add: rect_10_8_def scanMin_def scanMax_def)

lemma rect_plastic:
  "computePlasticProperties \<lparr>outerBoundary = rect_10_8, holes = []\<rparr>
   = Some \<lparr>pnaX = 4, pnaY = 5, Zx = 160, Zy = 200\<rparr>"
  by (simp add: computePlasticProperties_def rect_ccw computeNetArea_def polygonArea_def rect_signed
      rect_bbox rect_pnaX rect_pnaY rect_Zx rect_Zy)

text \<open>
  C1. For the cross section whose outer boundary is the rectangle (0,0), (10,0), (10,8),
  (0,8), with no holes, \<open>computeSectionProperties\<close> returns area 80, centroid (5,4),
  Ix = 1280/3, Iy = 2000/3, Ixy = 0, Sx_top = Sx_bot = 320/3, Sy_left = Sy_right = 400/3,
  Zx = 160, Zy = 200, pnaX = 4 and pnaY = 5.
\<close>

theorem rectangle_scenario:
  "computeSectionProperties
     \<lparr>outerBoundary = [\<lparr>px = 0, py = 0\<rparr>, \<lparr>px = 10, py = 0\<rparr>, \<lparr>px = 10, py = 8\<rparr>, \<lparr>px = 0, py = 8\<rparr>],
      holes = []\<rparr> = r
   \<Longrightarrow> area (elastic r) = 80 \<and> centroidX (elastic r) = 5 \<and> centroidY (elastic r) = 4
     \<and> Ix (elastic r) = 1280 / 3 \<and> Iy (elastic r) = 2000 / 3 \<and> Ixy (elastic r) = 0
     \<and> Sx_top (elastic r) = 320 / 3 \<and> Sx_bot (elastic r) = 320 / 3
     \<and> Sy_left (elastic r) = 400 / 3 \<and> Sy_right (elastic r) = 400 / 3
     \<and> plastic r = Some \<lparr>pnaX = 4, pnaY = 5, Zx = 160, Zy = 200\<rparr>"
  using rect_elastic [OF refl] rect_plastic
  by (auto simp: computeSectionProperties_def rect_10_8_def [symmetric])

theorem rectangle_scenario_witness:
  "area (elastic (computeSectionProperties
     \<lparr>outerBoundary = [\<lparr>px = 0, py = 0\<rparr>, \<lparr>px = 10, py = 0\<rparr>, \<lparr>px = 10, py = 8\<rparr>, \<lparr>px = 0, py = 8\<rparr>],
      holes = []\<rparr>)) = 80
   \<and> plastic (computeSectionProperties
     \<lparr>outerBoundary = [\<lparr>px = 0, py = 0\<rparr>, \<lparr>px = 10, py = 0\<rparr>, \<lparr>px = 10, py = 8\<rparr>, \<lparr>px = 0, py = 8\<rparr>],
      holes = []\<rparr>) = Some \<lparr>pnaX = 4, pnaY = 5, Zx = 160, Zy = 200\<rparr>"
  using rectangle_scenario [OF refl] by simp

section \<open>Principal moments\<close>

text \<open>
  In exact arithmetic: for every cross section, the record returned by \<open>computeElasticProperties\<close> has
  \<open>Ix_principal \<ge> Iy_principal\<close>.
\<close>

theorem principal_order:
  "Ix_principal (computeElasticProperties sec) \<ge> Iy_principal (computeElasticProperties sec)"
  by (simp add: computeElasticProperties_def elasticBody_def Let_def zeroElasticProps_def split: prod.splits)

section \<open>Degenerate net area\<close>

lemma polygonArea_ensureCCW: "polygonArea (ensureCCW vs) = polygonArea vs"
  by (simp add: ensureCCW_def polygonArea_rev)

lemma polygonArea_ensureCW: "polygonArea (ensureCW vs) = polygonArea vs"
  by (simp add: ensureCW_def polygonArea_rev)

lemma fold_add_swap: "fold (\<lambda>a (s::real). s + a) xs s0 = s0 + sum_list xs"
  by (induction xs arbitrary: s0) simp_all

lemma fold_sub: "fold (\<lambda>e (a::real). a - f e) es a0 = a0 - sum_list (map f es)"
  by (induction es arbitrary: a0) simp_all

lemma computeNetArea_netArea:
  "computeNetArea (ensureCCW (outerBoundary sec)) (map ensureCW (holes sec)) = netArea sec"
  by (simp add: computeNetArea_def fold_sub polygonArea_ensureCCW netArea_def comp_def
      polygonArea_ensureCW)

lemma elastic_area_netArea:
  "polygonArea (ensureCCW (outerBoundary sec))
   - fold (\<lambda>a s. s + a) (map polygonArea (map ensureCW (holes sec))) 0 = netArea sec"
  by (simp add: fold_add_swap polygonArea_ensureCCW netArea_def comp_def polygonArea_ensureCW)

lemma elastic_degenerate:
  "netArea sec < 1 / 10 ^ 12 \<Longrightarrow> computeElasticProperties sec = zeroElasticProps"
  unfolding computeElasticProperties_def elasticBody_def Let_def elastic_area_netArea by simp

lemma plastic_degenerate:
  "netArea sec < 1 / 10 ^ 12 \<Longrightarrow>
   computePlasticProperties sec = Some \<lparr>pnaX = 0, pnaY = 0, Zx = 0, Zy = 0\<rparr>"
  unfolding computePlasticProperties_def Let_def computeNetArea_netArea by simp

text \<open>
  In exact arithmetic: for every cross section whose net area (the area of the outer boundary minus the
  sum of the areas of the holes) has a magnitude below \<^verbatim>\<open>1e-12\<close>,
  \<open>computeElasticProperties\<close> returns the record of zeros and
  \<open>computePlasticProperties\<close> returns \<open>pnaX = pnaY = Zx = Zy = 0\<close>.
\<close>

theorem degenerate_area_zero:
  "\<bar>polygonArea (outerBoundary sec) - sum_list (map polygonArea (holes sec))\<bar> < 1 / 10 ^ 12 \<Longrightarrow>
     computeElasticProperties sec =
       \<lparr>area = 0, centroidX = 0, centroidY = 0, Ix = 0, Iy = 0, Ixy = 0,
        Ix_principal = 0, Iy_principal = 0, theta_principal = 0,
        Sx_top = 0, Sx_bot = 0, Sy_left = 0, Sy_right = 0, rx = Some 0, ry = Some 0\<rparr>
   \<and> computePlasticProperties sec = Some \<lparr>pnaX = 0, pnaY = 0, Zx = 0, Zy = 0\<rparr>"
proof -
  assume "\<bar>polygonArea (outerBoundary sec) - sum_list (map polygonArea (holes sec))\<bar> < 1 / 10 ^ 12"
  then have n: "netArea sec < 1 / 10 ^ 12"
    unfolding netArea_def by linarith
  show ?thesis
    using elastic_degenerate [OF n] plastic_degenerate [OF n]
    by (simp add: zeroElasticProps_def)
qed

lemma diagonal_signed: "signedPolygonArea diagonalPoints = 0"
  by (simp add: diagonalPoints_def signedPolygonArea_def cyclicPairs_zip)

theorem degenerate_area_zero_witness:
  "\<bar>polygonArea (outerBoundary \<lparr>outerBoundary = diagonalPoints, holes = []\<rparr>)
    - sum_list (map polygonArea (holes \<lparr>outerBoundary = diagonalPoints, holes = []\<rparr>))\<bar> < 1 / 10 ^ 12
   \<and> area (computeElasticProperties \<lparr>outerBoundary = diagonalPoints, holes = []\<rparr>) = 0
   \<and> computePlasticProperties \<lparr>outerBoundary = diagonalPoints, holes = []\<rparr>
       = Some \<lparr>pnaX = 0, pnaY = 0, Zx = 0, Zy = 0\<rparr>"
proof -
  have h: "\<bar>polygonArea (outerBoundary \<lparr>outerBoundary = diagonalPoints, holes = []\<rparr>)
    - sum_list (map polygonArea (holes \<lparr>outerBoundary = diagonalPoints, holes = []\<rparr>))\<bar> < 1 / 10 ^ 12"
    by (simp add: polygonArea_def diagonal_signed)
  from degenerate_area_zero [OF h] h show ?thesis by simp
qed

section \<open>Section moduli\<close>

lemma scanMin_fold:
  "fold (\<lambda>d m. case m of None \<Rightarrow> Some d | Some m' \<Rightarrow> if d < m' then Some d else Some m') ds
        (Some (a::real))
   = Some (fold min ds a)"
  by (induction ds arbitrary: a) (auto simp: min_def)

lemma scanMax_fold:
  "fold (\<lambda>d m. case m of None \<Rightarrow> Some d | Some m' \<Rightarrow> if d > m' then Some d else Some m') ds
        (Some (a::real))
   = Some (fold max ds a)"
  by (induction ds arbitrary: a) (auto simp: max_def)

text \<open>The scans return the least and the greatest value, and the sentinel for no value.\<close>

lemma scanMin_Min: "scanMin ds = (if ds = [] then None else Some (Min (set ds)))"
  by (cases ds) (simp_all add: scanMin_def scanMin_fold Min.set_eq_fold del: set_simps)

lemma scanMax_Max: "scanMax ds = (if ds = [] then None else Some (Max (set ds)))"
  by (cases ds) (simp_all add: scanMax_def scanMax_fold Max.set_eq_fold del: set_simps)

lemma sectionModulus_zero: "sectionModulus 0 ext = 0"
  by (simp add: sectionModulus_def split: option.splits)

lemma elastic_moduli:
  "Sx_top (computeElasticProperties sec)
     = sectionModulus (Ix (computeElasticProperties sec))
         (scanMax (map (\<lambda>v. py v - centroidY (computeElasticProperties sec)) (allVertices sec)))"
  "Sx_bot (computeElasticProperties sec)
     = sectionModulus (Ix (computeElasticProperties sec))
         (scanMin (map (\<lambda>v. py v - centroidY (computeElasticProperties sec)) (allVertices sec)))"
  "Sy_right (computeElasticProperties sec)
     = sectionModulus (Iy (computeElasticProperties sec))
         (scanMax (map (\<lambda>v. px v - centroidX (computeElasticProperties sec)) (allVertices sec)))"
  "Sy_left (computeElasticProperties sec)
     = sectionModulus (Iy (computeElasticProperties sec))
         (scanMin (map (\<lambda>v. px v - centroidX (computeElasticProperties sec)) (allVertices sec)))"
  by (simp_all add: computeElasticProperties_def elasticBody_def Let_def zeroElasticProps_def sectionModulus_zero
      allVertices_def split: prod.splits)

lemma sectionModulus_cases:
  "sectionModulus I ext = m \<Longrightarrow>
     (\<forall>d. ext = Some d \<and> \<bar>d\<bar> \<le> 1 / 10 ^ 12 \<longrightarrow> m = 0)
   \<and> (m = 0 \<or> (\<exists>d. ext = Some d \<and> \<bar>d\<bar> > 1 / 10 ^ 12 \<and> m = I / \<bar>d\<bar>))"
  by (auto simp: sectionModulus_def split: option.splits if_splits)

text \<open>
  In exact arithmetic: in \<open>computeElasticProperties\<close> each section modulus is 0 whenever the extreme-fibre
  distance it belongs to (the greatest or least \<open>y - centroidY\<close>, or \<open>x - centroidX\<close>, over
  the vertices) has a magnitude of at most \<^verbatim>\<open>1e-12\<close>; and a modulus that is not 0 is
  the quotient of the moment of inertia by a distance of magnitude above \<^verbatim>\<open>1e-12\<close>, so
  nothing is divided by a near-zero distance.
\<close>

theorem section_moduli_guarded:
  assumes "e = computeElasticProperties sec"
    and "yMax = scanMax (map (\<lambda>v. py v - centroidY e) (allVertices sec))"
    and "yMin = scanMin (map (\<lambda>v. py v - centroidY e) (allVertices sec))"
    and "xMax = scanMax (map (\<lambda>v. px v - centroidX e) (allVertices sec))"
    and "xMin = scanMin (map (\<lambda>v. px v - centroidX e) (allVertices sec))"
  shows "(\<forall>d. yMax = Some d \<and> \<bar>d\<bar> \<le> 1 / 10 ^ 12 \<longrightarrow> Sx_top e = 0)
       \<and> (\<forall>d. yMin = Some d \<and> \<bar>d\<bar> \<le> 1 / 10 ^ 12 \<longrightarrow> Sx_bot e = 0)
       \<and> (\<forall>d. xMax = Some d \<and> \<bar>d\<bar> \<le> 1 / 10 ^ 12 \<longrightarrow> Sy_right e = 0)
       \<and> (\<forall>d. xMin = Some d \<and> \<bar>d\<bar> \<le> 1 / 10 ^ 12 \<longrightarrow> Sy_left e = 0)
       \<and> (Sx_top e = 0 \<or> (\<exists>d. yMax = Some d \<and> \<bar>d\<bar> > 1 / 10 ^ 12 \<and> Sx_top e = Ix e / \<bar>d\<bar>))
       \<and> (Sx_bot e = 0 \<or> (\<exists>d. yMin = Some d \<and> \<bar>d\<bar> > 1 / 10 ^ 12 \<and> Sx_bot e = Ix e / \<bar>d\<bar>))
       \<and> (Sy_right e = 0 \<or> (\<exists>d. xMax = Some d \<and> \<bar>d\<bar> > 1 / 10 ^ 12 \<and> Sy_right e = Iy e / \<bar>d\<bar>))
       \<and> (Sy_left e = 0 \<or> (\<exists>d. xMin = Some d \<and> \<bar>d\<bar> > 1 / 10 ^ 12 \<and> Sy_left e = Iy e / \<bar>d\<bar>))"
proof -
  have "sectionModulus (Ix e) yMax = Sx_top e" "sectionModulus (Ix e) yMin = Sx_bot e"
    "sectionModulus (Iy e) xMax = Sy_right e" "sectionModulus (Iy e) xMin = Sy_left e"
    unfolding assms by (simp_all add: elastic_moduli [symmetric])
  from this [THEN sectionModulus_cases] show ?thesis by blast
qed

lemma hb_signed: "signedPolygonArea holeBelow = 32"
  by (simp add: holeBelow_def signedPolygonArea_def cyclicPairs_zip)

lemma hb_cw: "ensureCW holeBelow = rev holeBelow"
  by (simp add: ensureCW_def hb_signed)

lemma hb_centroid: "polygonCentroid (rev holeBelow) = \<lparr>px = 4, py = -2\<rparr>"
  by (simp add: polygonCentroid_def signedPolygonArea_rev hb_signed)
     (simp add: holeBelow_def cyclicPairs_zip cross_def)

lemma hb_area:
  "area (computeElasticProperties \<lparr>outerBoundary = rect_10_8, holes = [holeBelow]\<rparr>) = 48"
  by (simp add: computeElasticProperties_def elasticBody_def rect_ccw hb_cw polygonArea_def rect_signed
      signedPolygonArea_rev hb_signed Let_def split: prod.splits)

lemma hb_cY:
  "centroidY (computeElasticProperties \<lparr>outerBoundary = rect_10_8, holes = [holeBelow]\<rparr>) = 8"
  by (simp add: computeElasticProperties_def elasticBody_def rect_ccw hb_cw polygonArea_def rect_signed
      signedPolygonArea_rev hb_signed rect_centroid hb_centroid Let_def split: prod.splits)

lemma hb_yMax:
  "scanMax (map (\<lambda>v. py v - 8) (allVertices \<lparr>outerBoundary = rect_10_8, holes = [holeBelow]\<rparr>))
   = Some 0"
  by (simp add: allVertices_def rect_ccw hb_cw) (simp add: rect_10_8_def holeBelow_def scanMax_def)

theorem section_moduli_guarded_witness:
  "area (computeElasticProperties \<lparr>outerBoundary = rect_10_8, holes = [holeBelow]\<rparr>) = 48
   \<and> scanMax (map (\<lambda>v. py v
                 - centroidY (computeElasticProperties \<lparr>outerBoundary = rect_10_8, holes = [holeBelow]\<rparr>))
               (allVertices \<lparr>outerBoundary = rect_10_8, holes = [holeBelow]\<rparr>)) = Some 0
   \<and> \<bar>0 :: real\<bar> \<le> 1 / 10 ^ 12
   \<and> Sx_top (computeElasticProperties \<lparr>outerBoundary = rect_10_8, holes = [holeBelow]\<rparr>) = 0"
proof -
  have y: "scanMax (map (\<lambda>v. py v
                 - centroidY (computeElasticProperties \<lparr>outerBoundary = rect_10_8, holes = [holeBelow]\<rparr>))
               (allVertices \<lparr>outerBoundary = rect_10_8, holes = [holeBelow]\<rparr>)) = Some 0"
    by (simp only: hb_cY hb_yMax)
  from section_moduli_guarded [OF refl refl refl refl refl,
      of "\<lparr>outerBoundary = rect_10_8, holes = [holeBelow]\<rparr>"]
  have "Sx_top (computeElasticProperties \<lparr>outerBoundary = rect_10_8, holes = [holeBelow]\<rparr>) = 0"
    using y by simp
  with y hb_area show ?thesis by simp
qed

section \<open>The bisection for the plastic neutral axis\<close>

lemma findPNA_loop_trace:
  "findPNA_loop outer hs totalArea dir iter lo hi = (k, r) \<Longrightarrow> iter \<le> 100 \<Longrightarrow>
     iter \<le> k \<and> k \<le> 100
     \<and> r = midpoint ((pnaNarrow outer hs totalArea dir ^^ (k - iter)) (lo, hi))
     \<and> (\<forall>j < k - iter. \<not> pnaConverged outer hs totalArea dir
                           (midpoint ((pnaNarrow outer hs totalArea dir ^^ j) (lo, hi))))
     \<and> (k < 100 \<longrightarrow> pnaConverged outer hs totalArea dir r)"
proof (induction outer hs totalArea dir iter lo hi arbitrary: k r rule: findPNA_loop.induct)
  case (1 outer hs totalArea dir iter lo hi)
  let ?N = "pnaNarrow outer hs totalArea dir"
  let ?C = "pnaConverged outer hs totalArea dir"
  show ?case
  proof (cases "iter < 100")
    case False
    with "1.prems" show ?thesis
      by (simp add: findPNA_loop.simps [of _ _ _ _ iter] midpoint_def)
  next
    case lt: True
    show ?thesis
    proof (cases "?C ((lo + hi) / 2)")
      case True
      with lt "1.prems" show ?thesis
        by (simp add: findPNA_loop.simps [of _ _ _ _ iter] midpoint_def pnaConverged_def Let_def)
    next
      case nc: False
      have nc_raw: "\<not> \<bar>computeAreaOneSide outer hs ((lo + hi) / 2) dir below - totalArea / 2\<bar>
                       < totalArea * (1 / 10 ^ 10)"
        using nc unfolding pnaConverged_def .
      have le: "iter + 1 \<le> 100" using lt by simp
      have ih: "iter + 1 \<le> k \<and> k \<le> 100
         \<and> r = midpoint ((?N ^^ (k - (iter + 1))) (?N (lo, hi)))
         \<and> (\<forall>j < k - (iter + 1). \<not> ?C (midpoint ((?N ^^ j) (?N (lo, hi)))))
         \<and> (k < 100 \<longrightarrow> ?C r)"
      proof (cases "computeAreaOneSide outer hs ((lo + hi) / 2) dir below < totalArea / 2")
        case True
        then have N: "?N (lo, hi) = ((lo + hi) / 2, hi)"
          by (simp add: pnaNarrow_def midpoint_def)
        have step: "findPNA_loop outer hs totalArea dir (iter + 1) ((lo + hi) / 2) hi = (k, r)"
          using lt nc_raw True "1.prems"(1)
          by (subst (asm) findPNA_loop.simps) (simp add: Let_def)
        show ?thesis
          unfolding N by (rule "1.IH"(1) [OF lt refl refl refl nc_raw True step le])
      next
        case False
        then have N: "?N (lo, hi) = (lo, (lo + hi) / 2)"
          by (simp add: pnaNarrow_def midpoint_def)
        have step: "findPNA_loop outer hs totalArea dir (iter + 1) lo ((lo + hi) / 2) = (k, r)"
          using lt nc_raw False "1.prems"(1)
          by (subst (asm) findPNA_loop.simps) (simp add: Let_def)
        show ?thesis
          unfolding N by (rule "1.IH"(2) [OF lt refl refl refl nc_raw False step le])
      qed
      from ih have k: "k - iter = Suc (k - (iter + 1))" by linarith
      have r: "r = midpoint ((?N ^^ (k - iter)) (lo, hi))"
        using ih by (simp only: k funpow_Suc_right comp_apply)
      have nconv: "\<not> ?C (midpoint ((?N ^^ j) (lo, hi)))" if "j < k - iter" for j
      proof (cases j)
        case 0
        with nc show ?thesis by (simp add: midpoint_def)
      next
        case (Suc j')
        with that k have "j' < k - (iter + 1)" by simp
        with ih have "\<not> ?C (midpoint ((?N ^^ j') (?N (lo, hi))))" by blast
        then show ?thesis by (simp add: Suc funpow_swap1)
      qed
      from ih have b1: "iter \<le> k" by linarith
      from ih have b: "k \<le> 100" "k < 100 \<longrightarrow> ?C r"
        by blast+
      show ?thesis
        using b1 b r nconv by blast
    qed
  qed
qed

lemma findPNA_loop_0:
  "\<exists>k r. findPNA_loop outer hs totalArea dir 0 minVal maxVal = (k, r)
     \<and> findPNA outer hs totalArea minVal maxVal dir = r
     \<and> k \<le> 100
     \<and> r = midpoint (pnaBracket outer hs totalArea dir minVal maxVal k)
     \<and> (\<forall>j < k. \<not> pnaConverged outer hs totalArea dir
                       (midpoint (pnaBracket outer hs totalArea dir minVal maxVal j)))
     \<and> (k < 100 \<longrightarrow> pnaConverged outer hs totalArea dir r)"
proof -
  obtain k r where kr: "findPNA_loop outer hs totalArea dir 0 minVal maxVal = (k, r)"
    by (cases "findPNA_loop outer hs totalArea dir 0 minVal maxVal")
  from findPNA_loop_trace [OF kr] show ?thesis
    by (auto simp: kr findPNA_def pnaBracket_def)
qed

text \<open>
  C3. For every call, the search for the plastic neutral axis returns, after at most 100
  iterations: the loop counter \<open>k\<close> at the return is at most 100, none of the \<open>k\<close>
  midpoints before met the tolerance \<open>|areaBelow - halfArea| < totalArea * 1e-10\<close>, and
  the value returned is the midpoint of the bracket reached; when \<open>k < 100\<close> this
  midpoint meets the tolerance, and when \<open>k = 100\<close> it is the midpoint of the final
  bracket, returned as an ordinary value.
\<close>

theorem findPNA_bounded:
  "\<exists>k r. findPNA_loop outer hs totalArea dir 0 minVal maxVal = (k, r)
     \<and> findPNA outer hs totalArea minVal maxVal dir = r
     \<and> k \<le> 100
     \<and> r = midpoint (pnaBracket outer hs totalArea dir minVal maxVal k)
     \<and> (\<forall>j < k. \<not> pnaConverged outer hs totalArea dir
                       (midpoint (pnaBracket outer hs totalArea dir minVal maxVal j)))
     \<and> (k < 100 \<longrightarrow> pnaConverged outer hs totalArea dir r)"
  by (rule findPNA_loop_0)

lemma thin_clip:
  "0 < c \<Longrightarrow> c < 1 / (2 * 10 ^ 12) \<Longrightarrow>
   clipPolygon thinTriangle c horizontal below
   = [\<lparr>px = 0, py = 0\<rparr>, \<lparr>px = 4 * 10 ^ 12, py = 0\<rparr>, \<lparr>px = 4 * 10 ^ 12, py = 0\<rparr>,
      \<lparr>px = 0, py = 1 / (2 * 10 ^ 12)\<rparr>]"
  by (simp add: clipPolygon_def thinTriangle_def cyclicPairs_zip clipEdge_def isInside_def
      intersect_def Let_def)

lemma thin_area_below:
  "0 < c \<Longrightarrow> c < 1 / (2 * 10 ^ 12) \<Longrightarrow>
   computeAreaOneSide thinTriangle [] c horizontal below = 1"
  by (simp add: computeAreaOneSide_def thin_clip polygonArea_def signedPolygonArea_def
      cyclicPairs_zip)

lemma thin_mid:
  "midpoint (0, 1 / (2 * 10 ^ 12) / 2 ^ k) = 1 / (2 * 10 ^ 12) / 2 ^ Suc k"
  "0 < (1::real) / (2 * 10 ^ 12) / 2 ^ Suc k"
  "(1::real) / (2 * 10 ^ 12) / 2 ^ Suc k < 1 / (2 * 10 ^ 12)"
proof -
  show "midpoint (0, 1 / (2 * 10 ^ 12) / 2 ^ k) = 1 / (2 * 10 ^ 12) / 2 ^ Suc k"
    by (simp add: midpoint_def)
  show "0 < (1::real) / (2 * 10 ^ 12) / 2 ^ Suc k" by simp
  have "(1::real) < 2 * 2 ^ k" using one_le_power [of "2::real" k] by linarith
  then have "(1::real) / 2 ^ Suc k < 1" by simp
  then show "(1::real) / (2 * 10 ^ 12) / 2 ^ Suc k < 1 / (2 * 10 ^ 12)"
    by (simp add: field_simps)
qed

lemma thin_bracket:
  "pnaBracket thinTriangle [] 1 horizontal 0 (1 / (2 * 10 ^ 12)) k = (0, 1 / (2 * 10 ^ 12) / 2 ^ k)"
proof (induction k)
  case 0
  then show ?case by (simp add: pnaBracket_def)
next
  case (Suc k)
  have "pnaBracket thinTriangle [] 1 horizontal 0 (1 / (2 * 10 ^ 12)) (Suc k)
        = pnaNarrow thinTriangle [] 1 horizontal (0, 1 / (2 * 10 ^ 12) / 2 ^ k)"
    using Suc by (simp add: pnaBracket_def)
  also have "\<dots> = (0, 1 / (2 * 10 ^ 12) / 2 ^ Suc k)"
    unfolding pnaNarrow_def thin_mid(1) thin_area_below [OF thin_mid(2) thin_mid(3)] by simp
  finally show ?case .
qed

lemma thin_not_converged:
  "\<not> pnaConverged thinTriangle [] 1 horizontal
       (midpoint (pnaBracket thinTriangle [] 1 horizontal 0 (1 / (2 * 10 ^ 12)) k))"
  unfolding thin_bracket thin_mid(1) pnaConverged_def
    thin_area_below [OF thin_mid(2) thin_mid(3)]
  by simp

lemma rect_loop: "findPNA_loop rect_10_8 [] 80 horizontal 0 0 8 = (0, 4)"
  by (simp add: findPNA_loop.simps [of _ _ _ _ 0] computeAreaOneSide_def rect_clip_hb
      polygonArea_def signedPolygonArea_def cyclicPairs_zip)

text \<open>
  Two runs of the search: on the rectangle it returns at the first midpoint; on the thin
  triangle (net area 1) no midpoint meets the tolerance, the loop ends at its cap and the
  midpoint of the final bracket is returned.
\<close>

theorem findPNA_bounded_witness:
  "findPNA_loop rect_10_8 [] 80 horizontal 0 0 8 = (0, 4)
   \<and> pnaConverged rect_10_8 [] 80 horizontal 4
   \<and> findPNA_loop thinTriangle [] 1 horizontal 0 0 (1 / (2 * 10 ^ 12))
       = (100, 1 / (2 * 10 ^ 12) / 2 ^ 101)
   \<and> \<not> pnaConverged thinTriangle [] 1 horizontal
           (midpoint (pnaBracket thinTriangle [] 1 horizontal 0 (1 / (2 * 10 ^ 12)) 99))"
proof -
  from findPNA_bounded [of rect_10_8 "[]" 80 horizontal 0 8]
  have a: "pnaConverged rect_10_8 [] 80 horizontal 4"
    by (auto simp: rect_loop)
  from findPNA_bounded [of thinTriangle "[]" 1 horizontal 0 "1 / (2 * 10 ^ 12)"]
  obtain k r where kr: "findPNA_loop thinTriangle [] 1 horizontal 0 0 (1 / (2 * 10 ^ 12)) = (k, r)"
    and k: "k \<le> 100"
    and r: "r = midpoint (pnaBracket thinTriangle [] 1 horizontal 0 (1 / (2 * 10 ^ 12)) k)"
    and n: "\<forall>j < k. \<not> pnaConverged thinTriangle [] 1 horizontal
                       (midpoint (pnaBracket thinTriangle [] 1 horizontal 0 (1 / (2 * 10 ^ 12)) j))"
    and c: "k < 100 \<longrightarrow> pnaConverged thinTriangle [] 1 horizontal r"
    by blast
  from c r thin_not_converged [of k] k have k100: "k = 100" by auto
  have "r = midpoint (0, 1 / (2 * 10 ^ 12) / 2 ^ 100)"
    unfolding r k100 thin_bracket ..
  then have "r = 1 / (2 * 10 ^ 12) / 2 ^ 101"
    by (simp add: midpoint_def)
  moreover from n k100
  have "\<not> pnaConverged thinTriangle [] 1 horizontal
           (midpoint (pnaBracket thinTriangle [] 1 horizontal 0 (1 / (2 * 10 ^ 12)) 99))"
    by simp
  ultimately show ?thesis using kr k100 a rect_loop by simp
qed

section \<open>The plastic neutral axes and the vertex range\<close>

lemma pnaNarrow_range:
  "fst b \<le> snd b \<Longrightarrow>
     fst b \<le> fst (pnaNarrow outer hs totalArea dir b)
   \<and> fst (pnaNarrow outer hs totalArea dir b) \<le> snd (pnaNarrow outer hs totalArea dir b)
   \<and> snd (pnaNarrow outer hs totalArea dir b) \<le> snd b"
  by (simp add: pnaNarrow_def midpoint_def)

lemma pnaBracket_range:
  "minVal \<le> maxVal \<Longrightarrow>
     minVal \<le> fst (pnaBracket outer hs totalArea dir minVal maxVal k)
   \<and> fst (pnaBracket outer hs totalArea dir minVal maxVal k)
       \<le> snd (pnaBracket outer hs totalArea dir minVal maxVal k)
   \<and> snd (pnaBracket outer hs totalArea dir minVal maxVal k) \<le> maxVal"
proof (induction k)
  case 0
  then show ?case by (simp add: pnaBracket_def)
next
  case (Suc k)
  let ?b = "pnaBracket outer hs totalArea dir minVal maxVal k"
  from Suc have b: "minVal \<le> fst ?b" "fst ?b \<le> snd ?b" "snd ?b \<le> maxVal" by simp_all
  have S: "pnaBracket outer hs totalArea dir minVal maxVal (Suc k) = pnaNarrow outer hs totalArea dir ?b"
    by (simp add: pnaBracket_def)
  from pnaNarrow_range [OF b(2), of outer hs totalArea dir] b show ?case
    unfolding S by linarith
qed

lemma findPNA_range:
  "minVal \<le> maxVal \<Longrightarrow>
     minVal \<le> findPNA outer hs totalArea minVal maxVal dir
   \<and> findPNA outer hs totalArea minVal maxVal dir \<le> maxVal"
proof -
  assume le: "minVal \<le> maxVal"
  from findPNA_loop_0 [of outer hs totalArea dir minVal maxVal]
  obtain k where "findPNA outer hs totalArea minVal maxVal dir
                  = midpoint (pnaBracket outer hs totalArea dir minVal maxVal k)"
    by blast
  with pnaBracket_range [OF le, of outer hs totalArea dir k] show ?thesis
    by (simp add: midpoint_def)
qed

lemma Min_le_Max_list: "ds \<noteq> [] \<Longrightarrow> Min (set ds) \<le> Max (set (ds :: real list))"
proof -
  assume "ds \<noteq> []"
  then obtain d where d: "d \<in> set ds" by (cases ds) auto
  have "Min (set ds) \<le> d" using d by simp
  also have "d \<le> Max (set ds)" using d by simp
  finally show ?thesis .
qed

lemma polygonArea_nonneg: "0 \<le> polygonArea vs"
  by (simp add: polygonArea_def)

lemma polygonArea_pos_nonempty: "0 < polygonArea vs \<Longrightarrow> vs \<noteq> []"
  by (auto simp: polygonArea_def signedPolygonArea_def)

lemma nondegenerate_vertices:
  assumes "netArea sec \<ge> 1 / 10 ^ 12"
  shows "allVertices sec \<noteq> []"
proof -
  have "0 \<le> sum_list (map polygonArea (holes sec))"
    by (rule sum_list_nonneg) (auto simp: polygonArea_nonneg)
  with assms have "0 < polygonArea (outerBoundary sec)"
    unfolding netArea_def by (smt (verit) zero_less_divide_1_iff zero_less_numeral zero_less_power)
  then have "0 < polygonArea (ensureCCW (outerBoundary sec))"
    by (simp add: polygonArea_ensureCCW)
  then have "ensureCCW (outerBoundary sec) \<noteq> []"
    by (rule polygonArea_pos_nonempty)
  then show ?thesis by (simp add: allVertices_def)
qed

lemma plastic_nondegenerate:
  assumes "netArea sec \<ge> 1 / 10 ^ 12"
  shows "computePlasticProperties sec =
    Some \<lparr>pnaX = findPNA (ensureCCW (outerBoundary sec)) (map ensureCW (holes sec)) (netArea sec)
                   (Min (set (map py (allVertices sec)))) (Max (set (map py (allVertices sec)))) horizontal,
           pnaY = findPNA (ensureCCW (outerBoundary sec)) (map ensureCW (holes sec)) (netArea sec)
                   (Min (set (map px (allVertices sec)))) (Max (set (map px (allVertices sec)))) vertical,
           Zx = computePlasticModulus (ensureCCW (outerBoundary sec)) (map ensureCW (holes sec))
                  (findPNA (ensureCCW (outerBoundary sec)) (map ensureCW (holes sec)) (netArea sec)
                   (Min (set (map py (allVertices sec)))) (Max (set (map py (allVertices sec)))) horizontal) horizontal,
           Zy = computePlasticModulus (ensureCCW (outerBoundary sec)) (map ensureCW (holes sec))
                  (findPNA (ensureCCW (outerBoundary sec)) (map ensureCW (holes sec)) (netArea sec)
                   (Min (set (map px (allVertices sec)))) (Max (set (map px (allVertices sec)))) vertical) vertical\<rparr>"
proof -
  have ne: "concat (ensureCCW (outerBoundary sec) # map ensureCW (holes sec)) \<noteq> []"
    using nondegenerate_vertices [OF assms] unfolding allVertices_def .
  have n: "\<not> netArea sec < 1 / 10 ^ 12" using assms by simp
  show ?thesis
    unfolding computePlasticProperties_def Let_def computeNetArea_netArea allVertices_def
      scanMin_Min scanMax_Max
    using ne n by (simp del: concat.simps)
qed

text \<open>The sentinels of the bounding-box scan never reach the result.\<close>

lemma computePlasticProperties_defined: "computePlasticProperties sec \<noteq> None"
proof (cases "netArea sec < 1 / 10 ^ 12")
  case True
  then show ?thesis by (simp add: plastic_degenerate)
next
  case False
  then have "netArea sec \<ge> 1 / 10 ^ 12" by simp
  from plastic_nondegenerate [OF this] show ?thesis by simp
qed

lemma pna_in_range:
  assumes "netArea sec \<ge> 1 / 10 ^ 12"
  shows "pnaWithinRange sec"
proof -
  have ne: "allVertices sec \<noteq> []" by (rule nondegenerate_vertices [OF assms])
  have y: "Min (set (map py (allVertices sec))) \<le> Max (set (map py (allVertices sec)))"
    using ne by (intro Min_le_Max_list) simp
  have x: "Min (set (map px (allVertices sec))) \<le> Max (set (map px (allVertices sec)))"
    using ne by (intro Min_le_Max_list) simp
  show ?thesis
    unfolding pnaWithinRange_def plastic_nondegenerate [OF assms] scanMin_Min scanMax_Max
    using ne findPNA_range [OF y] findPNA_range [OF x] by simp
qed

text \<open>
  That the axes always lie within the vertex range fails for a degenerate
  section: three points on a line have net area 0, the engine returns
  \<open>pnaX = pnaY = 0\<close>, and 0 is below every coordinate of the vertices.
\<close>

theorem pna_range_counterexample:
  "\<not> pnaWithinRange
       \<lparr>outerBoundary = [\<lparr>px = 1, py = 1\<rparr>, \<lparr>px = 2, py = 2\<rparr>, \<lparr>px = 3, py = 3\<rparr>], holes = []\<rparr>"
proof -
  have n: "netArea \<lparr>outerBoundary = diagonalPoints, holes = []\<rparr> < 1 / 10 ^ 12"
    by (simp add: netArea_def polygonArea_def diagonal_signed)
  have c: "ensureCCW diagonalPoints = diagonalPoints"
    by (simp add: ensureCCW_def diagonal_signed)
  have "\<not> pnaWithinRange \<lparr>outerBoundary = diagonalPoints, holes = []\<rparr>"
    unfolding pnaWithinRange_def plastic_degenerate [OF n] allVertices_def
    by (simp add: c) (simp add: diagonalPoints_def scanMin_def scanMax_def)
  then show ?thesis by (simp add: diagonalPoints_def)
qed

text \<open>
  In exact arithmetic: for every call of \<open>findPNA\<close> with \<open>minVal \<le> maxVal\<close> the value returned
  lies in the closed interval from \<open>minVal\<close> to \<open>maxVal\<close>; hence, for every cross section
  whose net area is at least \<^verbatim>\<open>1e-12\<close>, \<open>pnaX\<close> lies within the range of the \<open>y\<close> of
  the vertices and \<open>pnaY\<close> within the range of their \<open>x\<close>.
\<close>

theorem pna_range:
  "(minVal \<le> maxVal \<longrightarrow>
      minVal \<le> findPNA outer hs totalArea minVal maxVal dir
      \<and> findPNA outer hs totalArea minVal maxVal dir \<le> maxVal)
   \<and> (netArea sec \<ge> 1 / 10 ^ 12 \<longrightarrow> pnaWithinRange sec)"
  using findPNA_range pna_in_range by blast

theorem pna_range_witness:
  "(0::real) \<le> 8
   \<and> 0 \<le> findPNA rect_10_8 [] 80 0 8 horizontal \<and> findPNA rect_10_8 [] 80 0 8 horizontal \<le> 8
   \<and> netArea \<lparr>outerBoundary = rect_10_8, holes = []\<rparr> \<ge> 1 / 10 ^ 12
   \<and> pnaWithinRange \<lparr>outerBoundary = rect_10_8, holes = []\<rparr>"
proof -
  have n: "netArea \<lparr>outerBoundary = rect_10_8, holes = []\<rparr> \<ge> 1 / 10 ^ 12"
    by (simp add: netArea_def polygonArea_def rect_signed)
  from pna_range [of 0 8 rect_10_8 "[]" 80 horizontal "\<lparr>outerBoundary = rect_10_8, holes = []\<rparr>"] n
  show ?thesis by simp
qed

section \<open>The two fragments of a clipped polygon\<close>

lemma pathPairs_zip: "pathPairs (a # xs) = zip (a # xs) xs"
  by (induction xs arbitrary: a) simp_all

lemma zip_longer: "length ys \<le> length xs \<Longrightarrow> zip (xs @ zs) ys = zip xs ys"
  by (simp add: zip_append1)

lemma cyclicPairs_closed: "cyclicPairs (v # vs) = pathPairs (v # vs @ [v])"
proof -
  have "zip ((v # vs) @ [v]) (vs @ [v]) = zip (v # vs) (vs @ [v])"
    by (rule zip_longer) simp
  then show ?thesis
    by (simp add: cyclicPairs_zip pathPairs_zip)
qed

lemma pathSum_pairs: "pathSum w p = (\<Sum>(a, b)\<leftarrow>pathPairs p. w a b)"
  by (induction w p rule: pathSum.induct) simp_all

lemma fold_append_concat: "fold (\<lambda>e out. out @ f e) es acc = acc @ concat (map f es)"
  by (induction es arbitrary: acc) simp_all


lemma clipPath_pairs: "clipPath c dir side p = concat (map (clipEdge c dir side) (pathPairs p))"
  by (induction c dir side p rule: clipPath.induct) simp_all

lemma clipPolygon_closed:
  "length (v # vs) \<ge> 3 \<Longrightarrow> clipPolygon (v # vs) c dir side = clipPath c dir side (v # vs @ [v])"
  by (simp add: clipPolygon_def fold_append_concat clipPath_pairs cyclicPairs_closed del: pathPairs.simps clipPath.simps)

lemma signed_closed:
  "signedPolygonArea (v # vs) = pathSum cross (v # vs @ [v]) / 2"
proof (cases "length (v # vs) < 3")
  case False
  then show ?thesis
    by (simp add: signedPolygonArea_sum cyclicPairs_closed pathSum_pairs del: pathPairs.simps)
next
  case True
  then consider "vs = []" | b where "vs = [b]"
    by (cases vs; cases "tl vs") auto
  then show ?thesis
    by cases (simp_all add: signedPolygonArea_def cross_def)
qed

lemma crossAbout_cross:
  "crossAbout c dir p q = cross p q
     - ((if dir = horizontal then c * px p else - c * py p) - (if dir = horizontal then c * px q else - c * py q))"
  by (simp add: crossAbout_def cross_def algebra_simps)

lemma pathSum_translate:
  "pathSum (crossAbout c dir) (a # xs)
   = pathSum cross (a # xs)
     - ((if dir = horizontal then c * px a else - c * py a)
        - (if dir = horizontal then c * px (last (a # xs)) else - c * py (last (a # xs))))"
proof (induction xs arbitrary: a)
  case Nil
  then show ?case by simp
next
  case (Cons b xs)
  show ?case
    using Cons [of b] by (simp add: crossAbout_cross)
qed

lemma pathSum_closed_translate:
  "pathSum (crossAbout c dir) (v # vs @ [v]) = pathSum cross (v # vs @ [v])"
  using pathSum_translate [of c dir v "vs @ [v]"] by simp

lemma pathSum_Cons: "ys \<noteq> [] \<Longrightarrow> pathSum w (a # ys) = w a (hd ys) + pathSum w ys"
  by (cases ys) simp_all

lemma pathSum_append:
  "xs \<noteq> [] \<Longrightarrow> ys \<noteq> [] \<Longrightarrow>
   pathSum w (xs @ ys) = pathSum w xs + w (last xs) (hd ys) + pathSum w ys"
proof (induction xs)
  case Nil
  then show ?case by simp
next
  case (Cons a xs)
  show ?case
  proof (cases "xs = []")
    case True
    with Cons.prems show ?thesis by (simp add: pathSum_Cons)
  next
    case False
    with Cons show ?thesis by (simp add: pathSum_Cons)
  qed
qed


lemma crossAbout_onLine:
  "across dir p = c \<Longrightarrow> across dir q = c \<Longrightarrow> crossAbout c dir p q = 0"
  by (simp add: across_def crossAbout_def split: if_splits)

lemma intersect_unguarded:
  assumes "\<bar>across dir b - across dir a\<bar> \<ge> 1 / 10 ^ 12"
  shows "dir = horizontal \<Longrightarrow>
           intersect a b c dir
           = \<lparr>px = px a + (c - py a) / (py b - py a) * (px b - px a), py = c\<rparr>"
    and "dir = vertical \<Longrightarrow>
           intersect a b c dir
           = \<lparr>px = c, py = py a + (c - px a) / (px b - px a) * (py b - py a)\<rparr>"
  using assms by (simp_all add: intersect_def across_def Let_def)

lemma intersect_onLine:
  "\<bar>across dir b - across dir a\<bar> \<ge> 1 / 10 ^ 12 \<Longrightarrow> across dir (intersect a b c dir) = c"
  by (cases dir) (simp_all add: intersect_unguarded, simp_all add: across_def)

lemma intersect_split:
  assumes "\<bar>across dir b - across dir a\<bar> \<ge> 1 / 10 ^ 12"
  shows "crossAbout c dir a (intersect a b c dir) + crossAbout c dir (intersect a b c dir) b
         = crossAbout c dir a b"
proof (cases dir)
  case horizontal
  define t where "t = (c - py a) / (py b - py a)"
  from assms horizontal have "py b - py a \<noteq> 0" by (auto simp: across_def)
  then have td: "t * (py b - py a) = c - py a" by (simp add: t_def)
  have q: "intersect a b c dir = \<lparr>px = px a + t * (px b - px a), py = c\<rparr>"
    unfolding t_def by (rule intersect_unguarded(1) [OF assms horizontal])
  have "crossAbout c dir a (intersect a b c dir) + crossAbout c dir (intersect a b c dir) b
        = px a * (py b - py a) + (t * (py b - py a)) * (px b - px a)"
    unfolding q by (simp add: crossAbout_def horizontal algebra_simps)
  also have "\<dots> = px a * (py b - py a) + (c - py a) * (px b - px a)"
    by (simp only: td)
  also have "\<dots> = crossAbout c dir a b"
    by (simp add: crossAbout_def horizontal algebra_simps)
  finally show ?thesis .
next
  case vertical
  define t where "t = (c - px a) / (px b - px a)"
  from assms vertical have "px b - px a \<noteq> 0" by (auto simp: across_def)
  then have td: "t * (px b - px a) = c - px a" by (simp add: t_def)
  have q: "intersect a b c dir = \<lparr>px = c, py = py a + t * (py b - py a)\<rparr>"
    unfolding t_def by (rule intersect_unguarded(2) [OF assms vertical])
  have "crossAbout c dir a (intersect a b c dir) + crossAbout c dir (intersect a b c dir) b
        = - (py a * (px b - px a)) - (t * (px b - px a)) * (py b - py a)"
    unfolding q by (simp add: crossAbout_def vertical algebra_simps)
  also have "\<dots> = - (py a * (px b - px a)) - (c - px a) * (py b - py a)"
    by (simp only: td)
  also have "\<dots> = crossAbout c dir a b"
    by (simp add: crossAbout_def vertical algebra_simps)
  finally show ?thesis .
qed


lemma isInside_across:
  "isInside p c dir below \<longleftrightarrow> across dir p \<le> c"
  "isInside p c dir above \<longleftrightarrow> across dir p \<ge> c"
  by (simp_all add: isInside_def across_def)

lemma edgeSum_both:
  assumes "spansGuard c dir (a, b)"
  shows "edgeSum c dir below (a, b) + edgeSum c dir above (a, b) = crossAbout c dir a b"
proof -
  let ?q = "intersect a b c dir"
  consider (same) "across dir a < c \<and> across dir b < c \<or> across dir a > c \<and> across dir b > c"
    | (online) "across dir a = c" "across dir b = c"
    | (span) "\<not> (across dir a < c \<and> across dir b < c)" "\<not> (across dir a > c \<and> across dir b > c)"
        "\<not> (across dir a = c \<and> across dir b = c)"
    by blast
  then show ?thesis
  proof cases
    case same
    then show ?thesis by (auto simp: edgeSum_def isInside_across)
  next
    case online
    then show ?thesis by (simp add: edgeSum_def isInside_across crossAbout_onLine)
  next
    case span
    then have "\<not> (isInside a c dir below = isInside b c dir below
         \<and> isInside a c dir above = isInside b c dir above)"
      by (auto simp: isInside_across)
    with assms have g: "\<bar>across dir b - across dir a\<bar> \<ge> 1 / 10 ^ 12"
      by (simp add: spansGuard_def)
    note q = intersect_onLine [OF g, of c] and sp = intersect_split [OF g, of c]
    have za: "across dir a = c \<Longrightarrow> crossAbout c dir a ?q = 0"
      and zb: "across dir b = c \<Longrightarrow> crossAbout c dir ?q b = 0"
      using q by (simp_all add: crossAbout_onLine)
    show ?thesis
      using span sp za zb
      by (cases "across dir a" c rule: linorder_cases; cases "across dir b" c rule: linorder_cases)
         (simp_all add: edgeSum_def isInside_across)
  qed
qed


lemma spans_guard:
  "spansGuard c dir (a, b) \<Longrightarrow> isInside a c dir side \<noteq> isInside b c dir side \<Longrightarrow>
   \<bar>across dir b - across dir a\<bar> \<ge> 1 / 10 ^ 12"
  by (cases side) (auto simp: spansGuard_def split: if_splits)

lemma completed_Cons:
  "completed c dir side (a # b # r) = clipEdge c dir side (a, b) @ completed c dir side (b # r)"
  by (simp add: completed_def)

lemma completed_hd_in:
  "isInside a c dir side \<Longrightarrow> \<exists>t. completed c dir side (a # r) = a # t"
  by (cases r) (simp_all add: completed_def clipEdge_def Let_def)

lemma completed_hd_out:
  "list_all (spansGuard c dir) (pathPairs (a # r)) \<Longrightarrow> \<not> isInside a c dir side \<Longrightarrow>
   completed c dir side (a # r) = [] \<or> across dir (hd (completed c dir side (a # r))) = c"
proof (induction r arbitrary: a)
  case Nil
  then show ?case by (simp add: completed_def)
next
  case (Cons b r)
  from Cons.prems have g: "spansGuard c dir (a, b)"
    and rest: "list_all (spansGuard c dir) (pathPairs (b # r))" by simp_all
  show ?case
  proof (cases "isInside b c dir side")
    case True
    with Cons.prems(2) have "\<bar>across dir b - across dir a\<bar> \<ge> 1 / 10 ^ 12"
      by (intro spans_guard [OF g, of side]) simp
    from intersect_onLine [OF this, of c] True Cons.prems(2) show ?thesis
      by (simp add: completed_Cons clipEdge_def Let_def)
  next
    case False
    with Cons.prems(2) have "completed c dir side (a # b # r) = completed c dir side (b # r)"
      by (simp add: completed_Cons clipEdge_def Let_def)
    with Cons.IH [OF rest False] show ?thesis by simp
  qed
qed

lemma completed_sum:
  "list_all (spansGuard c dir) (pathPairs (a # r)) \<Longrightarrow>
   pathSum (crossAbout c dir) (completed c dir side (a # r)) = pathEdgeSum c dir side (a # r)"
proof (induction r arbitrary: a)
  case Nil
  then show ?case by (simp add: completed_def)
next
  case (Cons b r)
  let ?w = "crossAbout c dir"
  let ?C = "completed c dir side (b # r)"
  let ?q = "intersect a b c dir"
  from Cons.prems have g: "spansGuard c dir (a, b)"
    and rest: "list_all (spansGuard c dir) (pathPairs (b # r))" by simp_all
  note IH = Cons.IH [OF rest]
  show ?case
  proof (cases "isInside a c dir side"; cases "isInside b c dir side")
    assume a: "isInside a c dir side" and b: "isInside b c dir side"
    from completed_hd_in [OF b, of r] obtain t where t: "?C = b # t" by blast
    have "pathSum ?w (completed c dir side (a # b # r)) = ?w a b + pathSum ?w ?C"
      using a b by (simp add: completed_Cons clipEdge_def Let_def t)
    with IH a b show ?thesis by (simp add: edgeSum_def)
  next
    assume a: "isInside a c dir side" and b: "\<not> isInside b c dir side"
    have gq: "across dir ?q = c"
      using a b by (intro intersect_onLine spans_guard [OF g, of side]) simp
    have C: "completed c dir side (a # b # r) = [a, ?q] @ ?C"
      using a b by (simp add: completed_Cons clipEdge_def Let_def)
    have "pathSum ?w ([a, ?q] @ ?C) = ?w a ?q + pathSum ?w ?C"
    proof (cases "?C = []")
      case True
      then show ?thesis by simp
    next
      case False
      with completed_hd_out [OF rest b] have "across dir (hd ?C) = c" by simp
      with gq have "?w ?q (hd ?C) = 0" by (simp add: crossAbout_onLine)
      with False show ?thesis by (simp add: pathSum_Cons)
    qed
    with IH a b C show ?thesis by (simp add: edgeSum_def)
  next
    assume a: "\<not> isInside a c dir side" and b: "isInside b c dir side"
    from completed_hd_in [OF b, of r] obtain t where t: "?C = b # t" by blast
    have "pathSum ?w (completed c dir side (a # b # r)) = ?w ?q b + pathSum ?w ?C"
      using a b by (simp add: completed_Cons clipEdge_def Let_def t)
    with IH a b show ?thesis by (simp add: edgeSum_def)
  next
    assume a: "\<not> isInside a c dir side" and b: "\<not> isInside b c dir side"
    have "completed c dir side (a # b # r) = ?C"
      using a b by (simp add: completed_Cons clipEdge_def Let_def)
    with IH a b show ?thesis by (simp add: edgeSum_def)
  qed
qed


lemma clipPath_hd_in:
  "isInside a c dir side \<Longrightarrow> \<exists>t. clipPath c dir side (a # b # r) = a # t"
  by (simp add: clipEdge_def Let_def)

lemma clipPath_last_out:
  "list_all (spansGuard c dir) (pathPairs (a # r)) \<Longrightarrow> \<not> isInside (last (a # r)) c dir side \<Longrightarrow>
   clipPath c dir side (a # r) = [] \<or> across dir (last (clipPath c dir side (a # r))) = c"
proof (induction r arbitrary: a)
  case Nil
  then show ?case by simp
next
  case (Cons b r)
  let ?T = "clipPath c dir side (b # r)"
  let ?q = "intersect a b c dir"
  from Cons.prems have g: "spansGuard c dir (a, b)"
    and rest: "list_all (spansGuard c dir) (pathPairs (b # r))"
    and out: "\<not> isInside (last (b # r)) c dir side" by simp_all
  note IH = Cons.IH [OF rest out]
  show ?case
  proof (cases "?T = []")
    case False
    with IH show ?thesis by simp
  next
    case True
    have nb: "\<not> isInside b c dir side"
    proof
      assume b: "isInside b c dir side"
      show False
      proof (cases r)
        case Nil
        with out b show False by simp
      next
        case (Cons b' r')
        with clipPath_hd_in [OF b, of b' r'] True show False by simp
      qed
    qed
    show ?thesis
    proof (cases "isInside a c dir side")
      case a: True
      have "across dir ?q = c"
        using a nb by (intro intersect_onLine spans_guard [OF g, of side]) simp
      with a nb True show ?thesis by (simp add: clipEdge_def Let_def)
    next
      case False
      with nb True show ?thesis by (simp add: clipEdge_def Let_def)
    qed
  qed
qed

lemma signed_clip_closed:
  assumes g: "list_all (spansGuard c dir) (pathPairs (v # vs @ [v]))"
  shows "signedPolygonArea (clipPath c dir side (v # vs @ [v]))
         = pathEdgeSum c dir side (v # vs @ [v]) / 2"
proof -
  let ?P = "v # vs @ [v]"
  let ?O = "clipPath c dir side ?P"
  let ?w = "crossAbout c dir"
  have sum: "pathSum ?w (completed c dir side ?P) = pathEdgeSum c dir side ?P"
    by (rule completed_sum [OF g])
  have closed: "pathSum ?w (?O @ [hd ?O]) = pathEdgeSum c dir side ?P" if ne: "?O \<noteq> []"
  proof (cases "isInside v c dir side")
    case True
    obtain b r where br: "vs @ [v] = b # r" by (cases "vs @ [v]") auto
    from clipPath_hd_in [OF True, of b r] obtain t where "?O = v # t" by (auto simp: br)
    then have "hd ?O = v" by simp
    then have "completed c dir side ?P = ?O @ [hd ?O]"
      using True by (simp add: completed_def)
    with sum show ?thesis by simp
  next
    case False
    then have C: "completed c dir side ?P = ?O" by (simp add: completed_def)
    have "across dir (hd ?O) = c"
      using completed_hd_out [OF g False] ne unfolding C by simp
    moreover have "across dir (last ?O) = c"
      using clipPath_last_out [OF g, of side] False ne by simp
    ultimately have "?w (last ?O) (hd ?O) = 0" by (simp add: crossAbout_onLine)
    then have "pathSum ?w (?O @ [hd ?O]) = pathSum ?w ?O"
      using ne by (simp add: pathSum_append)
    with sum C show ?thesis by simp
  qed
  show ?thesis
  proof (cases "?O = []")
    case True
    then have "completed c dir side ?P = (if isInside v c dir side then [v] else [])"
      by (simp add: completed_def)
    with sum have "pathEdgeSum c dir side ?P = 0" by (simp split: if_splits)
    with True show ?thesis by (simp add: signedPolygonArea_def)
  next
    case False
    then obtain o' os where O: "?O = o' # os" by (cases ?O) auto
    have "signedPolygonArea ?O = pathSum cross (o' # os @ [o']) / 2"
      unfolding O by (rule signed_closed)
    also have "\<dots> = pathSum ?w (o' # os @ [o']) / 2"
      by (simp only: pathSum_closed_translate)
    also have "\<dots> = pathEdgeSum c dir side ?P / 2"
      using closed [OF False] unfolding O by simp
    finally show ?thesis .
  qed
qed

lemma pathEdgeSum_both:
  "list_all (spansGuard c dir) (pathPairs p) \<Longrightarrow>
   pathEdgeSum c dir below p + pathEdgeSum c dir above p = pathSum (crossAbout c dir) p"
proof (induction p rule: pathPairs.induct)
  case (1 a b r)
  then have g: "spansGuard c dir (a, b)"
    and rest: "list_all (spansGuard c dir) (pathPairs (b # r))" by simp_all
  from edgeSum_both [OF g] "1.IH" [OF rest] show ?case by simp
qed simp_all

lemma clip_signed_additive:
  assumes "guardFree V c dir"
  shows "signedPolygonArea (clipPolygon V c dir below) + signedPolygonArea (clipPolygon V c dir above)
         = signedPolygonArea V"
proof (cases "length V < 3")
  case True
  then show ?thesis by (simp add: clipPolygon_def signedPolygonArea_def)
next
  case False
  then obtain v vs where V: "V = v # vs" by (cases V) auto
  from False V have len: "length (v # vs) \<ge> 3" by simp
  from assms have g: "list_all (spansGuard c dir) (pathPairs (v # vs @ [v]))"
    by (simp add: guardFree_def V cyclicPairs_closed del: pathPairs.simps)
  have "signedPolygonArea (clipPolygon V c dir below) + signedPolygonArea (clipPolygon V c dir above)
        = (pathEdgeSum c dir below (v # vs @ [v]) + pathEdgeSum c dir above (v # vs @ [v])) / 2"
    unfolding V clipPolygon_closed [OF len] signed_clip_closed [OF g] by (simp add: add_divide_distrib)
  also have "\<dots> = pathSum (crossAbout c dir) (v # vs @ [v]) / 2"
    by (simp only: pathEdgeSum_both [OF g])
  also have "\<dots> = signedPolygonArea V"
    by (simp only: pathSum_closed_translate signed_closed V)
  finally show ?thesis .
qed

lemma thinU_area: "polygonArea thinU = 5"
  by (simp add: polygonArea_def signedPolygonArea_def thinU_def cyclicPairs_zip)

lemma thinU_below: "polygonArea (clipPolygon thinU 0 horizontal below) = 13 / 4"
  by (simp add: clipPolygon_def thinU_def cyclicPairs_zip clipEdge_def isInside_def intersect_def Let_def
       polygonArea_def signedPolygonArea_def)

lemma thinU_above: "polygonArea (clipPolygon thinU 0 horizontal above) = 5 / 2"
  by (simp add: clipPolygon_def thinU_def cyclicPairs_zip clipEdge_def isInside_def intersect_def Let_def
       polygonArea_def signedPolygonArea_def)

text \<open>
  The areas of the two fragments need not add up: the U-shaped polygon is simple and has area 5; cut along \<open>y = 0\<close>,
  each of its four edges that cross the cut is shorter than \<^verbatim>\<open>1e-12\<close> across it, so
  \<open>intersect\<close> returns the first end point of the edge, and the two fragments have the
  areas 13/4 and 5/2.
\<close>

theorem thinU_partition_fails:
  "polygonArea (clipPolygon
      [\<lparr>px = 0, py = - 1 / 10 ^ 13\<rparr>, \<lparr>px = 4 * 10 ^ 13, py = - 1 / 10 ^ 13\<rparr>,
       \<lparr>px = 4 * 10 ^ 13, py = 1 / 10 ^ 13\<rparr>, \<lparr>px = 3 * 10 ^ 13, py = 1 / 10 ^ 13\<rparr>,
       \<lparr>px = 3 * 10 ^ 13, py = - 1 / (2 * 10 ^ 13)\<rparr>, \<lparr>px = 10 ^ 13, py = - 1 / (2 * 10 ^ 13)\<rparr>,
       \<lparr>px = 10 ^ 13, py = 1 / 10 ^ 13\<rparr>, \<lparr>px = 0, py = 1 / 10 ^ 13\<rparr>] 0 horizontal below)
   + polygonArea (clipPolygon
      [\<lparr>px = 0, py = - 1 / 10 ^ 13\<rparr>, \<lparr>px = 4 * 10 ^ 13, py = - 1 / 10 ^ 13\<rparr>,
       \<lparr>px = 4 * 10 ^ 13, py = 1 / 10 ^ 13\<rparr>, \<lparr>px = 3 * 10 ^ 13, py = 1 / 10 ^ 13\<rparr>,
       \<lparr>px = 3 * 10 ^ 13, py = - 1 / (2 * 10 ^ 13)\<rparr>, \<lparr>px = 10 ^ 13, py = - 1 / (2 * 10 ^ 13)\<rparr>,
       \<lparr>px = 10 ^ 13, py = 1 / 10 ^ 13\<rparr>, \<lparr>px = 0, py = 1 / 10 ^ 13\<rparr>] 0 horizontal above)
   \<noteq> polygonArea
      [\<lparr>px = 0, py = - 1 / 10 ^ 13\<rparr>, \<lparr>px = 4 * 10 ^ 13, py = - 1 / 10 ^ 13\<rparr>,
       \<lparr>px = 4 * 10 ^ 13, py = 1 / 10 ^ 13\<rparr>, \<lparr>px = 3 * 10 ^ 13, py = 1 / 10 ^ 13\<rparr>,
       \<lparr>px = 3 * 10 ^ 13, py = - 1 / (2 * 10 ^ 13)\<rparr>, \<lparr>px = 10 ^ 13, py = - 1 / (2 * 10 ^ 13)\<rparr>,
       \<lparr>px = 10 ^ 13, py = 1 / 10 ^ 13\<rparr>, \<lparr>px = 0, py = 1 / 10 ^ 13\<rparr>]"
  using thinU_area thinU_below thinU_above unfolding thinU_def by simp

lemma abs_add_eq_iff: "\<bar>a\<bar> + \<bar>b\<bar> = \<bar>a + b\<bar> \<longleftrightarrow> a * b \<ge> (0::real)"
  by (auto simp: zero_le_mult_iff abs_if)

text \<open>
  In exact arithmetic: for every vertex list and every cut such that each edge on which the clipper
  calls \<open>intersect\<close> extends by at least \<^verbatim>\<open>1e-12\<close> across the cut, the signed areas of
  the two fragments add up to the signed area of the polygon; so the areas of the two
  fragments add up to the area of the polygon exactly when the signed areas of the
  fragments are not of opposite sign.
\<close>

theorem clip_partition:
  "guardFree V c dir \<Longrightarrow>
     signedPolygonArea (clipPolygon V c dir below) + signedPolygonArea (clipPolygon V c dir above)
       = signedPolygonArea V
   \<and> (polygonArea (clipPolygon V c dir below) + polygonArea (clipPolygon V c dir above)
         = polygonArea V
        \<longleftrightarrow> signedPolygonArea (clipPolygon V c dir below)
              * signedPolygonArea (clipPolygon V c dir above) \<ge> 0)"
  using clip_signed_additive [of V c dir]
    abs_add_eq_iff [of "signedPolygonArea (clipPolygon V c dir below)"
      "signedPolygonArea (clipPolygon V c dir above)"]
  by (simp add: polygonArea_def)

lemma rect_guardFree: "guardFree rect_10_8 4 horizontal"
  by (simp add: guardFree_def rect_10_8_def cyclicPairs_zip spansGuard_def isInside_def across_def)

theorem clip_partition_witness:
  "guardFree rect_10_8 4 horizontal
   \<and> signedPolygonArea (clipPolygon rect_10_8 4 horizontal below) = 40
   \<and> signedPolygonArea (clipPolygon rect_10_8 4 horizontal above) = 40
   \<and> polygonArea (clipPolygon rect_10_8 4 horizontal below)
       + polygonArea (clipPolygon rect_10_8 4 horizontal above) = polygonArea rect_10_8"
proof -
  have b: "signedPolygonArea (clipPolygon rect_10_8 4 horizontal below) = 40"
    by (simp add: rect_clip_hb signedPolygonArea_def cyclicPairs_zip)
  have a: "signedPolygonArea (clipPolygon rect_10_8 4 horizontal above) = 40"
    by (simp add: rect_clip_ha signedPolygonArea_def cyclicPairs_zip)
  from clip_partition [OF rect_guardFree] a b rect_guardFree show ?thesis by simp
qed

section \<open>Effects on the store\<close>

text \<open>Every function leaves the store it starts from as a prefix of the store it returns.\<close>

lemma alloc_prefix: "prefix h (snd (alloc ob h))"
  by (simp add: alloc_def)

lemma alloc_fst: "fst (alloc ob h) = length h"
  by (simp add: alloc_def)

lemma update_prefix: "prefix h0 h \<Longrightarrow> length h0 \<le> i \<Longrightarrow> prefix h0 (h[i := v])"
  by (auto simp: prefix_def list_update_append)

lemma push_prefix: "prefix h0 h \<Longrightarrow> length h0 \<le> arr \<Longrightarrow> prefix h0 (push arr v h)"
  by (simp add: push_def update_prefix)

lemma copy_reverse_prefix:
  "prefix h (reverseInPlace (fst (copyArray arr h)) (snd (copyArray arr h)))"
  by (simp add: reverseInPlace_def copyArray_def alloc_def update_prefix)

lemma ensureCCW_h_prefix: "prefix h (snd (ensureCCW_h r h))"
  by (simp add: ensureCCW_h_def split_beta Let_def copy_reverse_prefix)

lemma ensureCW_h_prefix: "prefix h (snd (ensureCW_h r h))"
  by (simp add: ensureCW_h_def split_beta Let_def copy_reverse_prefix)

lemma prefix_step: "prefix h0 h \<Longrightarrow> prefix h h' \<Longrightarrow> prefix h0 h'"
  by (rule prefix_order.trans)

lemma mapHeap_prefix:
  assumes "\<And>r h. prefix h (snd (f r h))"
  shows "prefix h (snd (mapHeap f rs h))"
proof (induction rs arbitrary: h)
  case Nil
  then show ?case by simp
next
  case (Cons r rs)
  have "prefix h (snd (f r h))" by (rule assms)
  also have "prefix (snd (f r h)) (snd (mapHeap f rs (snd (f r h))))" by (rule Cons.IH)
  finally show ?case by (simp add: split_beta Let_def)
qed

lemma normalizeHoles_h_prefix: "prefix h (snd (normalizeHoles_h hl h))"
proof -
  have "prefix h (snd (mapHeap ensureCW_h (getArray h hl) h))"
    by (rule mapHeap_prefix) (rule ensureCW_h_prefix)
  also have "prefix \<dots> (snd (normalizeHoles_h hl h))"
    by (simp add: normalizeHoles_h_def split_beta Let_def alloc_prefix)
  finally show ?thesis .
qed

lemma polygonCentroid_h_prefix: "prefix h (snd (polygonCentroid_h r h))"
  by (simp add: polygonCentroid_h_def alloc_prefix)

lemma flatVertices_h_prefix: "prefix h (snd (flatVertices_h outer hs h))"
proof -
  have "prefix h (snd (alloc (ArrayObj (outer # getArray h hs)) h))" by (rule alloc_prefix)
  also have "prefix \<dots> (snd (flatVertices_h outer hs h))"
    by (simp add: flatVertices_h_def split_beta Let_def alloc_prefix)
  finally show ?thesis .
qed

lemma fold_heap_prefix:
  assumes "\<And>x hh. prefix hh (step x hh)"
  shows "prefix h (fold step xs h)"
proof (induction xs arbitrary: h)
  case Nil
  then show ?case by simp
next
  case (Cons x xs)
  have "prefix h (step x h)" by (rule assms)
  also have "prefix (step x h) (fold step xs (step x h))" by (rule Cons.IH)
  finally show ?case by simp
qed

lemma fold_pair_prefix:
  assumes "\<And>x a hh. prefix hh (snd (step x (a, hh)))"
  shows "prefix (snd st) (snd (fold step xs st))"
proof (induction xs arbitrary: st)
  case Nil
  then show ?case by simp
next
  case (Cons x xs)
  have "prefix (snd st) (snd (step x st))" using assms [of "snd st" x "fst st"] by simp
  also have "prefix (snd (step x st)) (snd (fold step xs (step x st)))" by (rule Cons.IH)
  finally show ?case by simp
qed


lemma intersect_h_prefix: "prefix h (snd (intersect_h p1 p2 c dir h))"
  by (simp add: intersect_h_def alloc_prefix)

lemma clipStep_prefix:
  assumes "prefix h0 h" and "length h0 \<le> output"
  shows "prefix h0 (clipStep c dir side output e h)"
proof -
  have p: "prefix h0 (push output v hh)" if "prefix h0 hh" for v hh
    using that assms(2) by (rule push_prefix)
  have q: "prefix h0 (snd (intersect_h p1 p2 c dir hh))" if "prefix h0 hh" for p1 p2 hh
    using that intersect_h_prefix by (rule prefix_step)
  show ?thesis
    unfolding clipStep_def Let_def split_beta
    by (simp add: p q assms(1))
qed

lemma clipFold_prefix:
  "prefix h0 h \<Longrightarrow> length h0 \<le> output \<Longrightarrow>
   prefix h0 (fold (clipStep c dir side output) es h)"
  by (induction es arbitrary: h) (simp_all add: clipStep_prefix)

lemma clipPolygon_h_prefix: "prefix h (snd (clipPolygon_h r c dir side h))"
proof (cases "length (getArray h r) < 3")
  case True
  then show ?thesis by (simp add: clipPolygon_h_def alloc_prefix)
next
  case False
  have "prefix h (fold (clipStep c dir side (length h)) (cyclicPairs (getArray h r)) (h @ [ArrayObj []]))"
    by (rule clipFold_prefix) simp_all
  with False show ?thesis by (simp add: clipPolygon_h_def alloc_def)
qed

lemma computeAreaOneSide_h_prefix: "prefix h (snd (computeAreaOneSide_h outer hs c dir side h))"
proof -
  let ?h1 = "snd (clipPolygon_h outer c dir side h)"
  let ?step = "\<lambda>hole (a, hh).
                 let (holeClipped, hh') = clipPolygon_h hole c dir side hh
                 in (a - polygonArea (points hh' holeClipped), hh')"
  have "prefix h ?h1" by (rule clipPolygon_h_prefix)
  also have "prefix ?h1 (snd (fold ?step (getArray ?h1 hs)
       (polygonArea (points ?h1 (fst (clipPolygon_h outer c dir side h))), ?h1)))"
    using fold_pair_prefix [of ?step "(polygonArea (points ?h1 (fst (clipPolygon_h outer c dir side h))), ?h1)"]
    by (simp add: split_beta Let_def clipPolygon_h_prefix)
  finally show ?thesis
    by (simp add: computeAreaOneSide_h_def split_beta Let_def)
qed

lemma firstMomentAboutAxis_h_prefix: "prefix h (snd (firstMomentAboutAxis_h r axis dir h))"
  by (simp add: firstMomentAboutAxis_h_def split_beta Let_def polygonCentroid_h_prefix)

lemma momentsOfClipped_h_prefix: "prefix h (snd (momentsOfClipped_h r pna dir h))"
proof -
  let ?a = "clipPolygon_h r pna dir above h"
  let ?b = "clipPolygon_h r pna dir below (snd ?a)"
  let ?c = "firstMomentAboutAxis_h (fst ?a) pna dir (snd ?b)"
  let ?d = "firstMomentAboutAxis_h (fst ?b) pna dir (snd ?c)"
  have "prefix h (snd ?a)" by (rule clipPolygon_h_prefix)
  also have "prefix (snd ?a) (snd ?b)" by (rule clipPolygon_h_prefix)
  also have "prefix (snd ?b) (snd ?c)" by (rule firstMomentAboutAxis_h_prefix)
  also have "prefix (snd ?c) (snd ?d)" by (rule firstMomentAboutAxis_h_prefix)
  finally show ?thesis
    by (simp add: momentsOfClipped_h_def split_beta Let_def)
qed

lemma computePlasticModulus_h_prefix: "prefix h (snd (computePlasticModulus_h outer hs pna dir h))"
proof -
  let ?m = "momentsOfClipped_h outer pna dir h"
  let ?step = "\<lambda>hole ((mA, mB), hh).
                    let ((a, b), hh') = momentsOfClipped_h hole pna dir hh
                    in ((mA - a, mB - b), hh')"
  have "prefix h (snd ?m)" by (rule momentsOfClipped_h_prefix)
  also have "prefix (snd ?m) (snd (fold ?step (getArray (snd ?m) hs) ?m))"
    using fold_pair_prefix [of ?step ?m]
    by (simp add: split_beta Let_def momentsOfClipped_h_prefix)
  finally show ?thesis
    by (simp add: computePlasticModulus_h_def split_beta Let_def)
qed

lemma findPNA_loop_h_prefix:
  "prefix h (snd (findPNA_loop_h outer hs totalArea dir iter lo hi h))"
proof (induction outer hs totalArea dir iter lo hi h rule: findPNA_loop_h.induct)
  case (1 outer hs totalArea dir iter lo hi h)
  let ?a = "computeAreaOneSide_h outer hs ((lo + hi) / 2) dir below h"
  have a: "prefix h (snd ?a)" by (rule computeAreaOneSide_h_prefix)
  show ?case
  proof (cases "iter < 100")
    case False
    then show ?thesis by (simp add: findPNA_loop_h.simps [of _ _ _ _ iter])
  next
    case lt: True
    show ?thesis
    proof (cases "\<bar>fst ?a - totalArea / 2\<bar> < totalArea * (1 / 10 ^ 10)")
      case True
      with lt a show ?thesis
        by (simp add: findPNA_loop_h.simps [of _ _ _ _ iter] split_beta Let_def)
    next
      case nc: False
      show ?thesis
      proof (cases "fst ?a < totalArea / 2")
        case True
        have "prefix (snd ?a) (snd (findPNA_loop_h outer hs totalArea dir (iter + 1) ((lo + hi) / 2) hi (snd ?a)))"
          by (rule "1.IH"(1) [OF lt refl refl _ refl nc True]) simp
        with a have "prefix h (snd (findPNA_loop_h outer hs totalArea dir (iter + 1) ((lo + hi) / 2) hi (snd ?a)))"
          by (rule prefix_step)
        with lt nc True show ?thesis
          by (subst findPNA_loop_h.simps) (simp add: split_beta Let_def)
      next
        case False
        have "prefix (snd ?a) (snd (findPNA_loop_h outer hs totalArea dir (iter + 1) lo ((lo + hi) / 2) (snd ?a)))"
          by (rule "1.IH"(2) [OF lt refl refl _ refl nc False]) simp
        with a have "prefix h (snd (findPNA_loop_h outer hs totalArea dir (iter + 1) lo ((lo + hi) / 2) (snd ?a)))"
          by (rule prefix_step)
        with lt nc False show ?thesis
          by (subst findPNA_loop_h.simps) (simp add: split_beta Let_def)
      qed
    qed
  qed
qed


lemma findPNA_h_prefix: "prefix h (snd (findPNA_h outer hs totalArea minVal maxVal dir h))"
  by (simp add: findPNA_h_def findPNA_loop_h_prefix)

lemma computeElasticProperties_h_prefix: "prefix h (snd (computeElasticProperties_h sec h))"
proof -
  let ?ob = "fst (getSection h sec)" and ?hl = "snd (getSection h sec)"
  let ?n1 = "ensureCCW_h ?ob h"
  let ?n2 = "normalizeHoles_h ?hl (snd ?n1)"
  let ?h2 = "snd ?n2"
  let ?h3 = "snd (alloc (NumArrayObj (map polygonArea (polys ?h2 (fst ?n2)))) ?h2)"
  let ?h4 = "snd (polygonCentroid_h (fst ?n1) ?h3)"
  let ?h5 = "fold (\<lambda>hole hh. snd (polygonCentroid_h hole hh)) (getArray ?h4 (fst ?n2)) ?h4"
  let ?h6 = "snd (flatVertices_h (fst ?n1) (fst ?n2) ?h5)"
  have "prefix h (snd ?n1)" by (rule ensureCCW_h_prefix)
  also have "prefix (snd ?n1) ?h2" by (rule normalizeHoles_h_prefix)
  also have "prefix ?h2 ?h3" by (rule alloc_prefix)
  finally have h3: "prefix h ?h3" .
  also have "prefix ?h3 ?h4" by (rule polygonCentroid_h_prefix)
  also have "prefix ?h4 ?h5" by (rule fold_heap_prefix) (rule polygonCentroid_h_prefix)
  also have "prefix ?h5 ?h6" by (rule flatVertices_h_prefix)
  finally have h6: "prefix h ?h6" .
  have a: "prefix h (snd (alloc ob hh))" if "prefix h hh" for ob hh
    using that alloc_prefix by (rule prefix_step)
  show ?thesis
    unfolding computeElasticProperties_h_def Let_def split_beta
    by (simp add: a [OF h3] a [OF h6])
qed

lemma computePlasticProperties_h_prefix: "prefix h (snd (computePlasticProperties_h sec h))"
proof -
  let ?ob = "fst (getSection h sec)" and ?hl = "snd (getSection h sec)"
  let ?n1 = "ensureCCW_h ?ob h"
  let ?n2 = "normalizeHoles_h ?hl (snd ?n1)"
  let ?h2 = "snd ?n2"
  let ?T = "computeNetArea (points ?h2 (fst ?n1)) (polys ?h2 (fst ?n2))"
  let ?f = "flatVertices_h (fst ?n1) (fst ?n2) ?h2"
  have "prefix h (snd ?n1)" by (rule ensureCCW_h_prefix)
  also have "prefix (snd ?n1) ?h2" by (rule normalizeHoles_h_prefix)
  finally have h2: "prefix h ?h2" .
  also have "prefix ?h2 (snd ?f)" by (rule flatVertices_h_prefix)
  finally have h3: "prefix h (snd ?f)" .
  have a: "prefix h (snd (alloc ob hh))" if "prefix h hh" for ob hh
    using that alloc_prefix by (rule prefix_step)
  have run: "prefix h (snd (computePlasticModulus_h (fst ?n1) (fst ?n2) pY vertical
       (snd (findPNA_h (fst ?n1) (fst ?n2) ?T xMin xMax vertical
         (snd (computePlasticModulus_h (fst ?n1) (fst ?n2) pX horizontal
           (snd (findPNA_h (fst ?n1) (fst ?n2) ?T yMin yMax horizontal (snd ?f)))))))))"
    for yMin yMax xMin xMax pX pY
  proof -
    let ?s4 = "snd (findPNA_h (fst ?n1) (fst ?n2) ?T yMin yMax horizontal (snd ?f))"
    let ?s5 = "snd (computePlasticModulus_h (fst ?n1) (fst ?n2) pX horizontal ?s4)"
    let ?s6 = "snd (findPNA_h (fst ?n1) (fst ?n2) ?T xMin xMax vertical ?s5)"
    let ?s7 = "snd (computePlasticModulus_h (fst ?n1) (fst ?n2) pY vertical ?s6)"
    note h3
    also have "prefix (snd ?f) ?s4" by (rule findPNA_h_prefix)
    also have "prefix ?s4 ?s5" by (rule computePlasticModulus_h_prefix)
    also have "prefix ?s5 ?s6" by (rule findPNA_h_prefix)
    also have "prefix ?s6 ?s7" by (rule computePlasticModulus_h_prefix)
    finally show ?thesis .
  qed
  show ?thesis
    unfolding computePlasticProperties_h_def Let_def split_beta
    by (auto simp: a [OF h2] a [OF run] h3 split: option.splits)
qed

lemma computeSectionProperties_h_prefix: "prefix h (snd (computeSectionProperties_h sec h))"
proof -
  let ?e = "computeElasticProperties_h sec h"
  let ?p = "computePlasticProperties_h sec (snd ?e)"
  have "prefix h (snd ?e)" by (rule computeElasticProperties_h_prefix)
  also have "prefix (snd ?e) (snd ?p)" by (rule computePlasticProperties_h_prefix)
  also have "prefix (snd ?p) (snd (alloc (PropsObj \<lparr>elastic = fst ?e, plastic = fst ?p\<rparr>) (snd ?p)))"
    by (rule alloc_prefix)
  finally show ?thesis
    by (simp add: computeSectionProperties_h_def split_beta Let_def)
qed

lemma prefix_nth: "prefix h h' \<Longrightarrow> a < length h \<Longrightarrow> h' ! a = h ! a"
  by (auto simp: prefix_def nth_append)

lemma prefix_getArray: "prefix h h' \<Longrightarrow> a < length h \<Longrightarrow> getArray h' a = getArray h a"
  using prefix_length_le [of h h'] by (simp add: getArray_def prefix_nth)

lemma ensureCCW_h_copy:
  "ensureCCW_h r h = (r', h') \<Longrightarrow>
     (\<forall>a < length h. h' ! a = h ! a)
   \<and> (if signedPolygonArea (points h r) < 0
       then r' = length h \<and> h' = h @ [ArrayObj (rev (getArray h r))]
       else r' = r \<and> h' = h)"
  by (auto simp: ensureCCW_h_def copyArray_def alloc_def reverseInPlace_def getArray_def nth_append
      split: if_splits)

lemma cw_points: "points cwHeap 4 = rev rect_10_8"
  by (simp add: points_def getArray_def getPoint_def cwHeap_def rect_10_8_def)

lemma cw_rev_signed: "signedPolygonArea (rev rect_10_8) = - 80"
  by (simp add: signedPolygonArea_rev rect_signed)

lemma cw_ensure:
  "ensureCCW_h 4 cwHeap = (7, cwHeap @ [ArrayObj [3, 2, 1, 0]])"
  by (simp add: ensureCCW_h_def cw_points cw_rev_signed copyArray_def alloc_def reverseInPlace_def)
     (simp add: cwHeap_def getArray_def)

lemma cw_holes:
  "normalizeHoles_h 5 (cwHeap @ [ArrayObj [3, 2, 1, 0]]) = (8, cwHeap @ [ArrayObj [3, 2, 1, 0], ArrayObj []])"
  by (simp add: normalizeHoles_h_def alloc_def) (simp add: cwHeap_def getArray_def)

lemma cw_points': "points (cwHeap @ [ArrayObj [3, 2, 1, 0], ArrayObj []] @ hx) 7 = rect_10_8"
  by (simp add: points_def getArray_def getPoint_def cwHeap_def rect_10_8_def)

lemma cw_polys': "polys (cwHeap @ [ArrayObj [3, 2, 1, 0], ArrayObj []] @ hx) 8 = []"
  by (simp add: polys_def getArray_def cwHeap_def)

lemma cw_elastic: "fst (computeElasticProperties_h 6 cwHeap) = elasticBody rect_10_8 []"
proof -
  have s: "getSection cwHeap 6 = (4, 5)" by (simp add: getSection_def cwHeap_def)
  show ?thesis
    unfolding computeElasticProperties_h_def s Let_def split_beta prod.case fst_conv snd_conv cw_ensure cw_holes
    using cw_points' [of "[]"] cw_polys' [of "[]"] cw_points' [of "[NumArrayObj []]"] cw_polys' [of "[NumArrayObj []]"]
    by (simp add: alloc_def)
qed

text \<open>On a closed store each function with effects computes what the function without computes.\<close>

lemma closedObj_mono: "closedObj n ob \<Longrightarrow> n \<le> m \<Longrightarrow> closedObj m ob"
  by (auto simp: closedObj_def list_all_iff split: obj.splits)

lemma closed_nth: "closedHeap h \<Longrightarrow> a < length h \<Longrightarrow> closedObj (length h) (h ! a)"
  by (simp add: closedHeap_def list_all_length)

lemma closed_getArray: "closedHeap h \<Longrightarrow> r \<in> set (getArray h a) \<Longrightarrow> r < length h"
proof (cases "a < length h")
  case True
  assume "closedHeap h" and r: "r \<in> set (getArray h a)"
  then have "closedObj (length h) (h ! a)" using True by (intro closed_nth)
  with r True show ?thesis
    by (auto simp: getArray_def closedObj_def list_all_iff split: obj.splits)
next
  case False
  assume "r \<in> set (getArray h a)"
  with False show ?thesis by (simp add: getArray_def)
qed

lemma closed_alloc:
  "closedHeap h \<Longrightarrow> closedObj (Suc (length h)) ob \<Longrightarrow> closedHeap (snd (alloc ob h))"
  by (auto simp: closedHeap_def alloc_def list_all_iff intro: closedObj_mono)

lemma closed_update:
  "closedHeap h \<Longrightarrow> closedObj (length h) ob \<Longrightarrow> closedHeap (h[a := ob])"
  by (auto simp: closedHeap_def list_all_iff dest!: set_update_subset_insert [THEN subsetD])

lemma prefix_getPoint: "prefix h h' \<Longrightarrow> a < length h \<Longrightarrow> getPoint h' a = getPoint h a"
  using prefix_length_le [of h h'] by (simp add: getPoint_def prefix_nth)

lemma prefix_points:
  "prefix h h' \<Longrightarrow> closedHeap h \<Longrightarrow> a < length h \<Longrightarrow> points h' a = points h a"
  by (auto simp: points_def prefix_getArray prefix_getPoint dest: closed_getArray)

lemma prefix_polys:
  "prefix h h' \<Longrightarrow> closedHeap h \<Longrightarrow> a < length h \<Longrightarrow> polys h' a = polys h a"
proof -
  assume p: "prefix h h'" and c: "closedHeap h" and a: "a < length h"
  have "points h' x = points h x" if "x \<in> set (getArray h a)" for x
    using p c closed_getArray [OF c that] by (rule prefix_points)
  then show ?thesis
    by (simp add: polys_def prefix_getArray [OF p a])
qed

lemma getArray_alloc: "getArray (h @ [ArrayObj rs]) (length h) = rs"
  by (simp add: getArray_def)

lemma ensureCCW_h_refines:
  assumes "closedHeap h" and "r < length h" and "ensureCCW_h r h = (r', h')"
  shows "closedHeap h' \<and> r' < length h' \<and> points h' r' = ensureCCW (points h r)"
proof (cases "signedPolygonArea (points h r) < 0")
  case False
  with assms show ?thesis by (simp add: ensureCCW_h_def ensureCCW_def)
next
  case True
  with assms(3) have r': "r' = length h" and h': "h' = h @ [ArrayObj (rev (getArray h r))]"
    using ensureCCW_h_copy [OF assms(3)] by simp_all
  have c: "closedObj (Suc (length h)) (ArrayObj (rev (getArray h r)))"
    using closed_getArray [OF assms(1), of _ r] by (auto simp: closedObj_def list_all_iff less_Suc_eq)
  have "closedHeap h'"
    using closed_alloc [OF assms(1) c] by (simp add: h' alloc_def)
  moreover have "points h' r' = rev (points h r)"
  proof -
    have "prefix h h'" by (simp add: h')
    then have "getPoint h' a = getPoint h a" if "a \<in> set (getArray h r)" for a
      using that closed_getArray [OF assms(1)] by (intro prefix_getPoint) auto
    then show ?thesis
      by (simp add: points_def r' h' getArray_alloc rev_map)
  qed
  ultimately show ?thesis using True by (simp add: r' h' ensureCCW_def)
qed


lemma ensureCW_h_copy:
  "ensureCW_h r h = (r', h') \<Longrightarrow>
     (if signedPolygonArea (points h r) > 0
      then r' = length h \<and> h' = h @ [ArrayObj (rev (getArray h r))]
      else r' = r \<and> h' = h)"
  by (auto simp: ensureCW_h_def copyArray_def alloc_def reverseInPlace_def getArray_def nth_append
      split: if_splits)

lemma ensureCW_h_refines:
  assumes "closedHeap h" and "r < length h" and "ensureCW_h r h = (r', h')"
  shows "closedHeap h' \<and> r' < length h' \<and> points h' r' = ensureCW (points h r)"
proof (cases "signedPolygonArea (points h r) > 0")
  case False
  with assms show ?thesis by (simp add: ensureCW_h_def ensureCW_def)
next
  case True
  with assms(3) have r': "r' = length h" and h': "h' = h @ [ArrayObj (rev (getArray h r))]"
    using ensureCW_h_copy [OF assms(3)] by simp_all
  have c: "closedObj (Suc (length h)) (ArrayObj (rev (getArray h r)))"
    using closed_getArray [OF assms(1), of _ r] by (auto simp: closedObj_def list_all_iff less_Suc_eq)
  have "closedHeap h'"
    using closed_alloc [OF assms(1) c] by (simp add: h' alloc_def)
  moreover have "points h' r' = rev (points h r)"
  proof -
    have "prefix h h'" by (simp add: h')
    then have "getPoint h' a = getPoint h a" if "a \<in> set (getArray h r)" for a
      using that closed_getArray [OF assms(1)] by (intro prefix_getPoint) auto
    then show ?thesis
      by (simp add: points_def r' h' getArray_alloc rev_map)
  qed
  ultimately show ?thesis using True by (simp add: r' h' ensureCW_def)
qed

lemma mapHeap_ensureCW_refines:
  "closedHeap h \<Longrightarrow> \<forall>r \<in> set rs. r < length h \<Longrightarrow> mapHeap ensureCW_h rs h = (rs', h') \<Longrightarrow>
     closedHeap h' \<and> (\<forall>r \<in> set rs'. r < length h')
     \<and> map (points h') rs' = map ensureCW (map (points h) rs)"
proof (induction rs arbitrary: h rs' h')
  case Nil
  then show ?case by simp
next
  case (Cons r rs)
  obtain r1 h1 where f: "ensureCW_h r h = (r1, h1)" by (cases "ensureCW_h r h")
  obtain rs2 h2 where m: "mapHeap ensureCW_h rs h1 = (rs2, h2)" by (cases "mapHeap ensureCW_h rs h1")
  from Cons.prems(3) f m have res: "rs' = r1 # rs2" "h' = h2" by simp_all
  from Cons.prems have r: "r < length h" by simp
  note e = ensureCW_h_refines [OF Cons.prems(1) r f]
  have p1: "prefix h h1" using ensureCW_h_prefix [of h r] f by simp
  then have len: "length h \<le> length h1" by (rule prefix_length_le)
  have rs1: "\<forall>r \<in> set rs. r < length h1" using Cons.prems(2) len by auto
  from e have c1: "closedHeap h1" by simp
  note IH = Cons.IH [OF c1 rs1 m]
  have p2: "prefix h1 h2" using mapHeap_prefix [of ensureCW_h h1 rs] m ensureCW_h_prefix by simp
  have "points h2 r1 = points h1 r1"
    using p2 c1 e by (intro prefix_points) simp_all
  moreover have "map (points h1) rs = map (points h) rs"
    using Cons.prems(1,2) p1 by (auto intro: prefix_points)
  ultimately show ?case
    using IH e len prefix_length_le [OF p2] by (auto simp: res)
qed

lemma normalizeHoles_h_refines:
  assumes "closedHeap h" and "hl < length h" and "normalizeHoles_h hl h = (hs, h')"
  shows "closedHeap h' \<and> hs < length h' \<and> polys h' hs = map ensureCW (polys h hl)"
proof -
  obtain rs h1 where m: "mapHeap ensureCW_h (getArray h hl) h = (rs, h1)"
    by (cases "mapHeap ensureCW_h (getArray h hl) h")
  from assms(3) m have hs: "hs = length h1" and h': "h' = h1 @ [ArrayObj rs]"
    by (simp_all add: normalizeHoles_h_def alloc_def)
  have "\<forall>r \<in> set (getArray h hl). r < length h"
    using closed_getArray [OF assms(1)] by blast
  note M = mapHeap_ensureCW_refines [OF assms(1) this m]
  have c: "closedObj (Suc (length h1)) (ArrayObj rs)"
    using M by (auto simp: closedObj_def list_all_iff less_Suc_eq)
  have ch: "closedHeap h'"
    using closed_alloc [OF _ c] M by (simp add: h' alloc_def)
  have "prefix h1 h'" by (simp add: h')
  then have "points h' r = points h1 r" if "r \<in> set rs" for r
    using that M by (intro prefix_points) auto
  then have "polys h' hs = map (points h1) rs"
    by (simp add: polys_def hs h' getArray_alloc)
  with M ch show ?thesis by (simp add: hs h' polys_def)
qed


lemma cyclicPairs_map: "cyclicPairs (map f xs) = map (map_prod f f) (cyclicPairs xs)"
  by (simp add: cyclicPairs_zip rotate1_map zip_map_map map_prod_def split_def)

lemma getPoint_update: "a \<noteq> b \<Longrightarrow> getPoint (h[b := ob]) a = getPoint h a"
  by (simp add: getPoint_def)

lemma getPoint_append: "a < length h \<Longrightarrow> getPoint (h @ hx) a = getPoint h a"
  by (simp add: getPoint_def nth_append)

lemma clipInv_push:
  assumes "clipInv h0 output h acc" and "v < length h" and "v \<noteq> output"
  shows "clipInv h0 output (push output v h) (acc @ [getPoint h v])"
proof -
  from assms(1) obtain rs where p: "prefix h0 h" and c: "closedHeap h" and lo: "length h0 \<le> output"
    and o: "output < length h" and rs: "h ! output = ArrayObj rs" and ne: "\<forall>r \<in> set rs. r \<noteq> output"
    and acc: "map (getPoint h) rs = acc"
    unfolding clipInv_def by blast
  have g: "getArray h output = rs" using o rs by (simp add: getArray_def)
  let ?h = "h[output := ArrayObj (rs @ [v])]"
  have "closedObj (length h) (ArrayObj rs)" using closed_nth [OF c o] rs by simp
  then have "closedObj (length h) (ArrayObj (rs @ [v]))"
    using assms(2) by (simp add: closedObj_def)
  then have "closedHeap ?h" by (rule closed_update [OF c])
  moreover have "prefix h0 ?h" using p lo by (rule update_prefix)
  moreover have "map (getPoint ?h) (rs @ [v]) = acc @ [getPoint h v]"
    using ne assms(3) acc by (auto simp: getPoint_update)
  moreover have "?h ! output = ArrayObj (rs @ [v])" using o by simp
  ultimately show ?thesis
    unfolding clipInv_def push_def g using lo o ne assms(3) by auto
qed

lemma clipInv_alloc:
  assumes "clipInv h0 output h acc"
  shows "clipInv h0 output (h @ [PointObj q]) acc"
proof -
  from assms(1) obtain rs where p: "prefix h0 h" and c: "closedHeap h" and lo: "length h0 \<le> output"
    and o: "output < length h" and rs: "h ! output = ArrayObj rs" and ne: "\<forall>r \<in> set rs. r \<noteq> output"
    and acc: "map (getPoint h) rs = acc"
    unfolding clipInv_def by blast
  have "closedObj (length h) (ArrayObj rs)" using closed_nth [OF c o] rs by simp
  then have lt: "\<forall>r \<in> set rs. r < length h" by (simp add: closedObj_def list_all_iff)
  have "closedHeap (h @ [PointObj q])"
    using closed_alloc [OF c, of "PointObj q"] by (simp add: alloc_def closedObj_def)
  moreover have "prefix h0 (h @ [PointObj q])" using p by (simp add: prefix_prefix)
  moreover have "map (getPoint (h @ [PointObj q])) rs = acc"
    using lt acc by (auto simp: getPoint_append)
  moreover have "(h @ [PointObj q]) ! output = ArrayObj rs" using o rs by (simp add: nth_append)
  ultimately show ?thesis
    unfolding clipInv_def using lo o ne by auto
qed

lemma clipInv_intersect:
  assumes "clipInv h0 output h acc"
  shows "clipInv h0 output
           (push output (fst (intersect_h p1 p2 c dir h)) (snd (intersect_h p1 p2 c dir h)))
           (acc @ [intersect (getPoint h p1) (getPoint h p2) c dir])"
proof -
  let ?q = "intersect (getPoint h p1) (getPoint h p2) c dir"
  from assms have o: "output < length h" by (simp add: clipInv_def)
  have "clipInv h0 output (push output (length h) (h @ [PointObj ?q]))
          (acc @ [getPoint (h @ [PointObj ?q]) (length h)])"
    using clipInv_alloc [OF assms, of ?q] o by (intro clipInv_push) simp_all
  then show ?thesis
    by (simp add: intersect_h_def alloc_def getPoint_def)
qed


lemma clipInv_getPoint:
  "clipInv h0 output h acc \<Longrightarrow> a < length h0 \<Longrightarrow>
   getPoint h a = getPoint h0 a \<and> a < length h \<and> a \<noteq> output"
  using prefix_length_le [of h0 h] by (auto simp: clipInv_def prefix_getPoint)

lemma clipStep_inv:
  assumes inv: "clipInv h0 output h acc" and cur: "cur < length h0" and nxt: "nxt < length h0"
  shows "clipInv h0 output (clipStep c dir side output (cur, nxt) h)
           (acc @ clipEdge c dir side (getPoint h0 cur, getPoint h0 nxt))"
proof -
  note gc = clipInv_getPoint [OF inv cur] and gn = clipInv_getPoint [OF inv nxt]
  have push_cur: "clipInv h0 output (push output cur h) (acc @ [getPoint h0 cur])"
    using clipInv_push [OF inv, of cur] gc by simp
  note gc1 = clipInv_getPoint [OF push_cur cur] and gn1 = clipInv_getPoint [OF push_cur nxt]
  have both: "clipInv h0 output
       (push output (fst (intersect_h cur nxt c dir (push output cur h)))
          (snd (intersect_h cur nxt c dir (push output cur h))))
       (acc @ [getPoint h0 cur, intersect (getPoint h0 cur) (getPoint h0 nxt) c dir])"
    using clipInv_intersect [OF push_cur, of cur nxt c dir] gc1 gn1 by simp
  have only_q: "clipInv h0 output
       (push output (fst (intersect_h cur nxt c dir h)) (snd (intersect_h cur nxt c dir h)))
       (acc @ [intersect (getPoint h0 cur) (getPoint h0 nxt) c dir])"
    using clipInv_intersect [OF inv, of cur nxt c dir] gc gn by simp
  show ?thesis
    unfolding clipStep_def clipEdge_def Let_def split_beta fst_conv snd_conv
    using gc gn push_cur both only_q inv by simp
qed

lemma clipFold_inv:
  "clipInv h0 output h acc \<Longrightarrow> \<forall>e \<in> set es. fst e < length h0 \<and> snd e < length h0 \<Longrightarrow>
   clipInv h0 output (fold (clipStep c dir side output) es h)
     (acc @ concat (map (clipEdge c dir side) (map (map_prod (getPoint h0) (getPoint h0)) es)))"
proof (induction es arbitrary: h acc)
  case Nil
  then show ?case by simp
next
  case (Cons e es)
  obtain cur nxt where e: "e = (cur, nxt)" by (cases e)
  from Cons.prems(2) e have "cur < length h0" "nxt < length h0" by simp_all
  from clipStep_inv [OF Cons.prems(1) this, of c dir side] Cons.prems(2)
  have "clipInv h0 output (fold (clipStep c dir side output) es (clipStep c dir side output (cur, nxt) h))
     ((acc @ clipEdge c dir side (getPoint h0 cur, getPoint h0 nxt))
      @ concat (map (clipEdge c dir side) (map (map_prod (getPoint h0) (getPoint h0)) es)))"
    by (intro Cons.IH) simp_all
  then show ?case by (simp add: e)
qed

lemma fold_append_concat': "fold (\<lambda>e out. out @ f e) es acc = acc @ concat (map f es)"
  by (induction es arbitrary: acc) simp_all

lemma clipPolygon_h_refines:
  assumes c: "closedHeap h" and r: "r < length h" and run: "clipPolygon_h r cv dir side h = (out, h')"
  shows "closedHeap h' \<and> out < length h' \<and> points h' out = clipPolygon (points h r) cv dir side"
proof (cases "length (getArray h r) < 3")
  case True
  with run have o: "out = length h" and h': "h' = h @ [ArrayObj []]"
    by (simp_all add: clipPolygon_h_def alloc_def)
  have "closedHeap h'"
    using closed_alloc [OF c, of "ArrayObj []"] by (simp add: h' alloc_def closedObj_def)
  with True show ?thesis
    by (simp add: o h' points_def getArray_alloc clipPolygon_def)
next
  case False
  let ?es = "cyclicPairs (getArray h r)"
  from False run have o: "out = length h"
    and h': "h' = fold (clipStep cv dir side (length h)) ?es (h @ [ArrayObj []])"
    by (auto simp: clipPolygon_h_def alloc_def)
  have c0: "closedHeap (h @ [ArrayObj []])"
    using closed_alloc [OF c, of "ArrayObj []"] by (simp add: alloc_def closedObj_def)
  have inv0: "clipInv h (length h) (h @ [ArrayObj []]) []"
    unfolding clipInv_def using c0 by simp
  have es: "\<forall>e \<in> set ?es. fst e < length h \<and> snd e < length h"
  proof
    fix e assume "e \<in> set ?es"
    then have "(fst e, snd e) \<in> set (zip (getArray h r) (rotate1 (getArray h r)))"
      by (simp add: cyclicPairs_zip)
    then have "fst e \<in> set (getArray h r)" "snd e \<in> set (rotate1 (getArray h r))"
      by (rule set_zip_leftD, rule set_zip_rightD)
    then have "fst e \<in> set (getArray h r)" "snd e \<in> set (getArray h r)"
      by simp_all
    then show "fst e < length h \<and> snd e < length h"
      using closed_getArray [OF c] by blast
  qed
  from clipFold_inv [OF inv0 es, of cv dir side]
  have inv: "clipInv h (length h) h'
      (concat (map (clipEdge cv dir side) (cyclicPairs (points h r))))"
    by (simp add: h' points_def cyclicPairs_map)
  then obtain rs where "h' ! length h = ArrayObj rs" "length h < length h'"
    "map (getPoint h') rs = concat (map (clipEdge cv dir side) (cyclicPairs (points h r)))"
    "closedHeap h'"
    unfolding clipInv_def by blast
  with False show ?thesis
    by (simp add: o points_def getArray_def clipPolygon_def fold_append_concat')
qed


lemma grows_points:
  "closedHeap h0 \<Longrightarrow> grows h0 h \<Longrightarrow> a < length h0 \<Longrightarrow> points h a = points h0 a \<and> a < length h"
  using prefix_length_le [of h0 h] by (auto simp: grows_def prefix_points)

lemma grows_polys:
  "closedHeap h0 \<Longrightarrow> grows h0 h \<Longrightarrow> a < length h0 \<Longrightarrow> polys h a = polys h0 a"
  by (auto simp: grows_def prefix_polys)

lemma grows_getArray:
  "grows h0 h \<Longrightarrow> a < length h0 \<Longrightarrow> getArray h a = getArray h0 a"
  by (auto simp: grows_def prefix_getArray)

lemma grows_trans: "grows h0 h \<Longrightarrow> prefix h h' \<Longrightarrow> closedHeap h' \<Longrightarrow> grows h0 h'"
  by (auto simp: grows_def)

lemma fold_heap_refines:
  assumes "\<And>x a hh. x \<in> set xs \<Longrightarrow> grows h0 hh \<Longrightarrow>
             grows h0 (snd (stepH x (a, hh))) \<and> fst (stepH x (a, hh)) = stepP x a"
  shows "grows h0 hh \<Longrightarrow>
           grows h0 (snd (fold stepH xs (a, hh))) \<and> fst (fold stepH xs (a, hh)) = fold stepP xs a"
  using assms
proof (induction xs arbitrary: a hh)
  case Nil
  then show ?case by simp
next
  case (Cons x xs)
  from Cons.prems(2) [of x hh a] Cons.prems(1)
  have s: "grows h0 (snd (stepH x (a, hh)))" "fst (stepH x (a, hh)) = stepP x a" by simp_all
  have "grows h0 (snd (fold stepH xs (stepP x a, snd (stepH x (a, hh)))))
        \<and> fst (fold stepH xs (stepP x a, snd (stepH x (a, hh)))) = fold stepP xs (stepP x a)"
    using s(1) Cons.prems(2) by (intro Cons.IH) simp_all
  moreover have "stepH x (a, hh) = (stepP x a, snd (stepH x (a, hh)))"
    using s(2) by (metis prod.collapse)
  ultimately show ?case by simp
qed

lemma clipPolygon_h_grows:
  assumes "closedHeap h0" and "grows h0 h" and "r < length h0"
  shows "grows h0 (snd (clipPolygon_h r cv dir side h))
       \<and> points (snd (clipPolygon_h r cv dir side h)) (fst (clipPolygon_h r cv dir side h))
           = clipPolygon (points h0 r) cv dir side
       \<and> fst (clipPolygon_h r cv dir side h) < length (snd (clipPolygon_h r cv dir side h))"
proof -
  note g = grows_points [OF assms]
  from assms(2) have c: "closedHeap h" by (simp add: grows_def)
  from clipPolygon_h_refines [OF c _ surjective_pairing, of r cv dir side] g
  have "closedHeap (snd (clipPolygon_h r cv dir side h))"
    "fst (clipPolygon_h r cv dir side h) < length (snd (clipPolygon_h r cv dir side h))"
    "points (snd (clipPolygon_h r cv dir side h)) (fst (clipPolygon_h r cv dir side h))
           = clipPolygon (points h0 r) cv dir side"
    by simp_all
  then show ?thesis
    using grows_trans [OF assms(2) clipPolygon_h_prefix] by simp
qed

lemma computeAreaOneSide_h_grows:
  assumes c0: "closedHeap h0" and g: "grows h0 h" and o: "outer < length h0" and hs: "hs < length h0"
  shows "grows h0 (snd (computeAreaOneSide_h outer hs cv dir side h))
       \<and> fst (computeAreaOneSide_h outer hs cv dir side h)
           = computeAreaOneSide (points h0 outer) (polys h0 hs) cv dir side"
proof -
  let ?c = "clipPolygon_h outer cv dir side h"
  let ?stepH = "\<lambda>hole (a, hh).
                 let (holeClipped, hh') = clipPolygon_h hole cv dir side hh
                 in (a - polygonArea (points hh' holeClipped), hh')"
  let ?stepP = "\<lambda>hole a. a - polygonArea (clipPolygon (points h0 hole) cv dir side)"
  note C = clipPolygon_h_grows [OF c0 g o, of cv dir side]
  have ga: "getArray (snd ?c) hs = getArray h0 hs"
    using C hs by (intro grows_getArray) simp
  have step: "grows h0 (snd (?stepH x (a, hh))) \<and> fst (?stepH x (a, hh)) = ?stepP x a"
    if "x \<in> set (getArray h0 hs)" "grows h0 hh" for x a hh
    using clipPolygon_h_grows [OF c0 that(2), of x cv dir side] closed_getArray [OF c0 that(1)]
    by (simp add: split_beta Let_def)
  from fold_heap_refines [of "getArray h0 hs" h0 ?stepH ?stepP "snd ?c"
      "polygonArea (points (snd ?c) (fst ?c))", OF step] C
  show ?thesis
    by (simp add: computeAreaOneSide_h_def computeAreaOneSide_def split_beta Let_def ga polys_def
        fold_map comp_def)
qed


lemma findPNA_loop_h_grows:
  "closedHeap h0 \<Longrightarrow> outer < length h0 \<Longrightarrow> hs < length h0 \<Longrightarrow> grows h0 h \<Longrightarrow>
         grows h0 (snd (findPNA_loop_h outer hs totalArea dir iter lo hi h))
       \<and> fst (findPNA_loop_h outer hs totalArea dir iter lo hi h)
           = snd (findPNA_loop (points h0 outer) (polys h0 hs) totalArea dir iter lo hi)"
proof (induction outer hs totalArea dir iter lo hi h rule: findPNA_loop_h.induct)
  case (1 outer hs totalArea dir iter lo hi h)
  let ?a = "computeAreaOneSide_h outer hs ((lo + hi) / 2) dir below h"
  let ?A = "computeAreaOneSide (points h0 outer) (polys h0 hs) ((lo + hi) / 2) dir below"
  note A = computeAreaOneSide_h_grows [OF "1.prems"(1) "1.prems"(4) "1.prems"(2) "1.prems"(3),
      of "(lo + hi) / 2" dir below]
  then have fa: "fst ?a = ?A" and ga: "grows h0 (snd ?a)" by simp_all
  show ?case
  proof (cases "iter < 100")
    case False
    with "1.prems" show ?thesis
      by (simp add: findPNA_loop_h.simps [of _ _ _ _ iter] findPNA_loop.simps [of _ _ _ _ iter])
  next
    case lt: True
    show ?thesis
    proof (cases "\<bar>fst ?a - totalArea / 2\<bar> < totalArea * (1 / 10 ^ 10)")
      case True
      with lt ga fa show ?thesis
        by (simp add: findPNA_loop_h.simps [of _ _ _ _ iter] findPNA_loop.simps [of _ _ _ _ iter]
            split_beta Let_def)
    next
      case nc: False
      show ?thesis
      proof (cases "fst ?a < totalArea / 2")
        case True
        have "grows h0 (snd (findPNA_loop_h outer hs totalArea dir (iter + 1) ((lo + hi) / 2) hi (snd ?a)))
          \<and> fst (findPNA_loop_h outer hs totalArea dir (iter + 1) ((lo + hi) / 2) hi (snd ?a))
             = snd (findPNA_loop (points h0 outer) (polys h0 hs) totalArea dir (iter + 1) ((lo + hi) / 2) hi)"
          by (rule "1.IH"(1) [OF lt refl refl _ refl nc True "1.prems"(1,2,3) ga]) simp
        with lt nc True fa show ?thesis
          by (simp add: findPNA_loop_h.simps [of outer hs totalArea dir iter lo hi h]
              findPNA_loop.simps [of _ _ totalArea dir iter lo hi] split_beta Let_def)
      next
        case False
        have "grows h0 (snd (findPNA_loop_h outer hs totalArea dir (iter + 1) lo ((lo + hi) / 2) (snd ?a)))
          \<and> fst (findPNA_loop_h outer hs totalArea dir (iter + 1) lo ((lo + hi) / 2) (snd ?a))
             = snd (findPNA_loop (points h0 outer) (polys h0 hs) totalArea dir (iter + 1) lo ((lo + hi) / 2))"
          by (rule "1.IH"(2) [OF lt refl refl _ refl nc False "1.prems"(1,2,3) ga]) simp
        with lt nc False fa show ?thesis
          by (simp add: findPNA_loop_h.simps [of outer hs totalArea dir iter lo hi h]
              findPNA_loop.simps [of _ _ totalArea dir iter lo hi] split_beta Let_def)
      qed
    qed
  qed
qed


lemma firstMomentAboutAxis_h_refines:
  assumes "closedHeap h" and "r < length h"
  shows "closedHeap (snd (firstMomentAboutAxis_h r axis dir h))
       \<and> fst (firstMomentAboutAxis_h r axis dir h) = firstMomentAboutAxis (points h r) axis dir"
proof -
  have "closedHeap (h @ [PointObj q])" for q
    using closed_alloc [OF assms(1), of "PointObj q"] by (simp add: alloc_def closedObj_def)
  then show ?thesis
    using assms(1)
    by (simp add: firstMomentAboutAxis_h_def firstMomentAboutAxis_def polygonCentroid_h_def
        alloc_def getPoint_def split_beta Let_def points_def)
qed

lemma momentsOfClipped_h_grows:
  assumes c0: "closedHeap h0" and g: "grows h0 h" and r: "r < length h0"
  shows "grows h0 (snd (momentsOfClipped_h r pna dir h))
       \<and> fst (momentsOfClipped_h r pna dir h)
           = (firstMomentAboutAxis (clipPolygon (points h0 r) pna dir above) pna dir,
              firstMomentAboutAxis (clipPolygon (points h0 r) pna dir below) pna dir)"
proof -
  let ?a = "clipPolygon_h r pna dir above h"
  let ?b = "clipPolygon_h r pna dir below (snd ?a)"
  let ?c = "firstMomentAboutAxis_h (fst ?a) pna dir (snd ?b)"
  let ?d = "firstMomentAboutAxis_h (fst ?b) pna dir (snd ?c)"
  note A = clipPolygon_h_grows [OF c0 g r, of pna dir above]
  then have ga: "grows h0 (snd ?a)" and ca: "closedHeap (snd ?a)" by (simp_all add: grows_def)
  note B = clipPolygon_h_grows [OF c0 ga r, of pna dir below]
  then have gb: "grows h0 (snd ?b)" and cb: "closedHeap (snd ?b)" by (simp_all add: grows_def)
  have pab: "prefix (snd ?a) (snd ?b)" by (rule clipPolygon_h_prefix)
  have la: "fst ?a < length (snd ?b)" using A prefix_length_le [OF pab] by simp
  have pa: "points (snd ?b) (fst ?a) = clipPolygon (points h0 r) pna dir above"
    using prefix_points [OF pab ca] A by simp
  note C = firstMomentAboutAxis_h_refines [OF cb la, of pna dir]
  have pbc: "prefix (snd ?b) (snd ?c)" by (rule firstMomentAboutAxis_h_prefix)
  have lb: "fst ?b < length (snd ?c)" using B prefix_length_le [OF pbc] by simp
  have pb: "points (snd ?c) (fst ?b) = clipPolygon (points h0 r) pna dir below"
    using prefix_points [OF pbc cb] B by simp
  from C have cc: "closedHeap (snd ?c)" by simp
  note D = firstMomentAboutAxis_h_refines [OF cc lb, of pna dir]
  have "grows h0 (snd ?d)"
    using gb pbc cc firstMomentAboutAxis_h_prefix [of "snd ?c" "fst ?b" pna dir] D
    by (auto intro: grows_trans)
  with C D pa pb show ?thesis
    by (simp add: momentsOfClipped_h_def split_beta Let_def)
qed

lemma computePlasticModulus_h_grows:
  assumes c0: "closedHeap h0" and g: "grows h0 h" and o: "outer < length h0" and hs: "hs < length h0"
  shows "grows h0 (snd (computePlasticModulus_h outer hs pna dir h))
       \<and> fst (computePlasticModulus_h outer hs pna dir h)
           = computePlasticModulus (points h0 outer) (polys h0 hs) pna dir"
proof -
  let ?m = "momentsOfClipped_h outer pna dir h"
  let ?stepH = "\<lambda>hole ((mA, mB), hh).
                    let ((a, b), hh') = momentsOfClipped_h hole pna dir hh
                    in ((mA - a, mB - b), hh')"
  let ?stepP = "\<lambda>hole (mA, mB).
                    (mA - firstMomentAboutAxis (clipPolygon (points h0 hole) pna dir above) pna dir,
                     mB - firstMomentAboutAxis (clipPolygon (points h0 hole) pna dir below) pna dir)"
  note M = momentsOfClipped_h_grows [OF c0 g o, of pna dir]
  have ga: "getArray (snd ?m) hs = getArray h0 hs"
    using M hs by (intro grows_getArray) simp
  have step: "grows h0 (snd (?stepH x (a, hh))) \<and> fst (?stepH x (a, hh)) = ?stepP x a"
    if "x \<in> set (getArray h0 hs)" "grows h0 hh" for x a hh
    using momentsOfClipped_h_grows [OF c0 that(2), of x pna dir] closed_getArray [OF c0 that(1)]
    by (simp add: split_beta Let_def)
  from fold_heap_refines [of "getArray h0 hs" h0 ?stepH ?stepP "snd ?m" "fst ?m", OF step] M
  show ?thesis
    by (simp add: computePlasticModulus_h_def computePlasticModulus_def split_beta Let_def ga
        polys_def fold_map comp_def)
qed

lemma flatVertices_h_refines:
  assumes c: "closedHeap h" and o: "outer < length h" and hs: "hs < length h"
  shows "closedHeap (snd (flatVertices_h outer hs h))
       \<and> points (snd (flatVertices_h outer hs h)) (fst (flatVertices_h outer hs h))
           = concat (points h outer # polys h hs)"
proof -
  let ?n = "ArrayObj (outer # getArray h hs)"
  let ?h1 = "h @ [?n]"
  let ?rs = "concat (map (getArray ?h1) (outer # getArray h hs))"
  have lt: "\<forall>r \<in> set (outer # getArray h hs). r < length h"
    using o closed_getArray [OF c, of _ hs] by auto
  have c1: "closedHeap ?h1"
    using closed_alloc [OF c, of ?n] lt by (simp add: alloc_def closedObj_def list_all_iff less_Suc_eq)
  have p: "prefix h ?h1" by simp
  have ga: "getArray ?h1 r = getArray h r" if "r \<in> set (outer # getArray h hs)" for r
    using that lt by (intro prefix_getArray [OF p]) auto
  have "map (getArray ?h1) (outer # getArray h hs) = map (getArray h) (outer # getArray h hs)"
    by (rule map_cong [OF refl]) (rule ga)
  then have rs: "?rs = concat (map (getArray h) (outer # getArray h hs))"
    by (rule arg_cong)
  have lt2: "\<forall>r \<in> set ?rs. r < length h"
    unfolding rs using closed_getArray [OF c] by auto
  have c2: "closedHeap (?h1 @ [ArrayObj ?rs])"
    using closed_alloc [OF c1, of "ArrayObj ?rs"] lt2
    by (simp add: alloc_def closedObj_def list_all_iff less_Suc_eq)
  have gp: "getPoint (?h1 @ [ArrayObj ?rs]) r = getPoint h r" if "r \<in> set ?rs" for r
    using that lt2 by (simp add: getPoint_append)
  have "map (getPoint (?h1 @ [ArrayObj ?rs])) ?rs = map (getPoint h) ?rs"
    using gp by simp
  also have "\<dots> = concat (points h outer # polys h hs)"
    unfolding rs by (simp add: points_def [abs_def] polys_def map_concat comp_def)
  finally have "points (?h1 @ [ArrayObj ?rs]) (length ?h1) = concat (points h outer # polys h hs)"
    unfolding points_def getArray_alloc .
  with c2 show ?thesis
    by (simp add: flatVertices_h_def alloc_def getArray_alloc [of h "outer # getArray h hs"])
qed


lemma validSection_refs:
  assumes "validSection h sec"
  shows "fst (getSection h sec) < length h" "snd (getSection h sec) < length h"
  using assms closed_nth [of h sec]
  by (auto simp: validSection_def getSection_def closedObj_def split: obj.splits)

lemma normalized_refines:
  assumes v: "validSection h sec"
  defines "n1 \<equiv> ensureCCW_h (fst (getSection h sec)) h"
  defines "n2 \<equiv> normalizeHoles_h (snd (getSection h sec)) (snd n1)"
  shows "closedHeap (snd n2)" "fst n1 < length (snd n2)" "fst n2 < length (snd n2)"
    "points (snd n2) (fst n1) = ensureCCW (outerBoundary (sectionAt h sec))"
    "polys (snd n2) (fst n2) = map ensureCW (holes (sectionAt h sec))"
proof -
  from v have c: "closedHeap h" by (simp add: validSection_def)
  note refs = validSection_refs [OF v]
  have e: "closedHeap (snd n1) \<and> fst n1 < length (snd n1)
           \<and> points (snd n1) (fst n1) = ensureCCW (points h (fst (getSection h sec)))"
    unfolding n1_def by (rule ensureCCW_h_refines [OF c refs(1) surjective_pairing])
  have p1: "prefix h (snd n1)" unfolding n1_def by (rule ensureCCW_h_prefix)
  have hl1: "snd (getSection h sec) < length (snd n1)"
    using refs(2) prefix_length_le [OF p1] by simp
  have n: "closedHeap (snd n2) \<and> fst n2 < length (snd n2)
           \<and> polys (snd n2) (fst n2) = map ensureCW (polys (snd n1) (snd (getSection h sec)))"
    unfolding n2_def using e by (intro normalizeHoles_h_refines [OF _ hl1 surjective_pairing]) simp
  have p2: "prefix (snd n1) (snd n2)" unfolding n2_def by (rule normalizeHoles_h_prefix)
  show "closedHeap (snd n2)" "fst n2 < length (snd n2)" using n by simp_all
  show "fst n1 < length (snd n2)" using e prefix_length_le [OF p2] by simp
  show "points (snd n2) (fst n1) = ensureCCW (outerBoundary (sectionAt h sec))"
    using prefix_points [OF p2, of "fst n1"] e by (simp add: sectionAt_def)
  show "polys (snd n2) (fst n2) = map ensureCW (holes (sectionAt h sec))"
    using n prefix_polys [OF p1 c refs(2)] by (simp add: sectionAt_def)
qed

lemma computeElasticProperties_h_refines:
  assumes v: "validSection h sec"
  shows "fst (computeElasticProperties_h sec h) = computeElasticProperties (sectionAt h sec)"
proof -
  let ?n1 = "ensureCCW_h (fst (getSection h sec)) h"
  let ?n2 = "normalizeHoles_h (snd (getSection h sec)) (snd ?n1)"
  let ?h3 = "snd ?n2 @ [NumArrayObj (map polygonArea (polys (snd ?n2) (fst ?n2)))]"
  note N = normalized_refines [OF v]
  have p: "prefix (snd ?n2) ?h3" by simp
  have "points ?h3 (fst ?n1) = ensureCCW (outerBoundary (sectionAt h sec))"
    using prefix_points [OF p N(1,2)] N(4) by simp
  moreover have "polys ?h3 (fst ?n2) = map ensureCW (holes (sectionAt h sec))"
    using prefix_polys [OF p N(1,3)] N(5) by simp
  ultimately show ?thesis
    by (simp add: computeElasticProperties_h_def computeElasticProperties_def split_beta Let_def
        alloc_def)
qed


lemma grows_refl: "closedHeap h \<Longrightarrow> grows h h"
  by (simp add: grows_def)

lemma computePlasticProperties_h_refines:
  assumes v: "validSection h sec"
  shows "fst (computePlasticProperties_h sec h) = computePlasticProperties (sectionAt h sec)"
proof -
  let ?n1 = "ensureCCW_h (fst (getSection h sec)) h"
  let ?n2 = "normalizeHoles_h (snd (getSection h sec)) (snd ?n1)"
  let ?h2 = "snd ?n2"
  let ?o = "fst ?n1" and ?hs = "fst ?n2"
  let ?O = "ensureCCW (outerBoundary (sectionAt h sec))"
  let ?H = "map ensureCW (holes (sectionAt h sec))"
  let ?T = "computeNetArea ?O ?H"
  let ?f = "flatVertices_h ?o ?hs ?h2"
  note N = normalized_refines [OF v]
  note F = flatVertices_h_refines [OF N(1,2,3)]
  have av: "points (snd ?f) (fst ?f) = concat (?O # ?H)"
    using F N(4,5) by simp
  have g3: "grows ?h2 (snd ?f)"
    using F flatVertices_h_prefix [of ?h2 ?o ?hs] by (simp add: grows_def)
  have run: "fst (findPNA_h ?o ?hs ?T yMin yMax horizontal (snd ?f)) = findPNA ?O ?H ?T yMin yMax horizontal
     \<and> fst (computePlasticModulus_h ?o ?hs pX horizontal
           (snd (findPNA_h ?o ?hs ?T yMin yMax horizontal (snd ?f))))
         = computePlasticModulus ?O ?H pX horizontal
     \<and> fst (findPNA_h ?o ?hs ?T xMin xMax vertical
           (snd (computePlasticModulus_h ?o ?hs pX horizontal
              (snd (findPNA_h ?o ?hs ?T yMin yMax horizontal (snd ?f))))))
         = findPNA ?O ?H ?T xMin xMax vertical
     \<and> fst (computePlasticModulus_h ?o ?hs pY vertical
           (snd (findPNA_h ?o ?hs ?T xMin xMax vertical
             (snd (computePlasticModulus_h ?o ?hs pX horizontal
                (snd (findPNA_h ?o ?hs ?T yMin yMax horizontal (snd ?f))))))))
         = computePlasticModulus ?O ?H pY vertical"
    for yMin yMax xMin xMax pX pY
  proof -
    let ?s4 = "findPNA_h ?o ?hs ?T yMin yMax horizontal (snd ?f)"
    let ?s5 = "computePlasticModulus_h ?o ?hs pX horizontal (snd ?s4)"
    let ?s6 = "findPNA_h ?o ?hs ?T xMin xMax vertical (snd ?s5)"
    let ?s7 = "computePlasticModulus_h ?o ?hs pY vertical (snd ?s6)"
    have s4: "grows ?h2 (snd ?s4) \<and> fst ?s4 = findPNA ?O ?H ?T yMin yMax horizontal"
      using findPNA_loop_h_grows [OF N(1,2,3) g3, of ?T horizontal 0 yMin yMax] N(4,5)
      by (simp add: findPNA_h_def findPNA_def)
    then have g4: "grows ?h2 (snd ?s4)" by simp
    have s5: "grows ?h2 (snd ?s5) \<and> fst ?s5 = computePlasticModulus ?O ?H pX horizontal"
      using computePlasticModulus_h_grows [OF N(1) g4 N(2,3), of pX horizontal] N(4,5) by simp
    then have g5: "grows ?h2 (snd ?s5)" by simp
    have s6: "grows ?h2 (snd ?s6) \<and> fst ?s6 = findPNA ?O ?H ?T xMin xMax vertical"
      using findPNA_loop_h_grows [OF N(1,2,3) g5, of ?T vertical 0 xMin xMax] N(4,5)
      by (simp add: findPNA_h_def findPNA_def)
    then have g6: "grows ?h2 (snd ?s6)" by simp
    have s7: "fst ?s7 = computePlasticModulus ?O ?H pY vertical"
      using computePlasticModulus_h_grows [OF N(1) g6 N(2,3), of pY vertical] N(4,5) by simp
    from s4 s5 s6 s7 show ?thesis by simp
  qed
  show ?thesis
    unfolding computePlasticProperties_h_def computePlasticProperties_def Let_def split_beta
      N(4,5) av
    by (auto simp: run split: option.splits)
qed


lemma closed_alloc_plain:
  "closedHeap h \<Longrightarrow> (\<And>rs. ob \<noteq> ArrayObj rs) \<Longrightarrow> (\<And>a b. ob \<noteq> SectionObj a b) \<Longrightarrow>
   closedHeap (snd (alloc ob h))"
  by (rule closed_alloc) (auto simp: closedObj_def split: obj.splits)

lemma centroid_fold_closed:
  "closedHeap h \<Longrightarrow> closedHeap (fold (\<lambda>hole hh. snd (polygonCentroid_h hole hh)) rs h)"
  by (induction rs arbitrary: h) (simp_all add: polygonCentroid_h_def closed_alloc_plain)

lemma computeElasticProperties_h_closed:
  assumes v: "validSection h sec"
  shows "closedHeap (snd (computeElasticProperties_h sec h))"
proof -
  let ?n1 = "ensureCCW_h (fst (getSection h sec)) h"
  let ?n2 = "normalizeHoles_h (snd (getSection h sec)) (snd ?n1)"
  let ?h3 = "snd (alloc (NumArrayObj (map polygonArea (polys (snd ?n2) (fst ?n2)))) (snd ?n2))"
  let ?h4 = "snd (polygonCentroid_h (fst ?n1) ?h3)"
  let ?h5 = "fold (\<lambda>hole hh. snd (polygonCentroid_h hole hh)) (getArray ?h4 (fst ?n2)) ?h4"
  let ?f = "flatVertices_h (fst ?n1) (fst ?n2) ?h5"
  note N = normalized_refines [OF v]
  have c3: "closedHeap ?h3" using N(1) by (rule closed_alloc_plain) simp_all
  then have c4: "closedHeap ?h4" by (simp add: polygonCentroid_h_def closed_alloc_plain)
  then have c5: "closedHeap ?h5" by (rule centroid_fold_closed)
  have "prefix (snd ?n2) ?h3" by (rule alloc_prefix)
  also have "prefix ?h3 ?h4" by (rule polygonCentroid_h_prefix)
  also have "prefix ?h4 ?h5" by (rule fold_heap_prefix) (rule polygonCentroid_h_prefix)
  finally have "length (snd ?n2) \<le> length ?h5" by (rule prefix_length_le)
  with N(2,3) have "fst ?n1 < length ?h5" "fst ?n2 < length ?h5" by simp_all
  from flatVertices_h_refines [OF c5 this] have c6: "closedHeap (snd ?f)" by simp
  have a: "closedHeap (snd (alloc (ElasticObj e) hh))" if "closedHeap hh" for e hh
    using that by (rule closed_alloc_plain) simp_all
  show ?thesis
    unfolding computeElasticProperties_h_def Let_def split_beta
    by (simp add: a [OF c3] a [OF c6])
qed

lemma validSection_prefix:
  assumes v: "validSection h sec" and p: "prefix h h'" and c: "closedHeap h'"
  shows "validSection h' sec \<and> sectionAt h' sec = sectionAt h sec"
proof -
  from v have c0: "closedHeap h" and s: "sec < length h" by (simp_all add: validSection_def)
  note refs = validSection_refs [OF v]
  have n: "h' ! sec = h ! sec" using p s by (rule prefix_nth)
  have g: "getSection h' sec = getSection h sec"
    using s prefix_length_le [OF p] by (simp add: getSection_def n)
  have "validSection h' sec"
    using v c s prefix_length_le [OF p] by (simp add: validSection_def n)
  moreover have "sectionAt h' sec = sectionAt h sec"
    by (simp add: sectionAt_def g prefix_points [OF p c0 refs(1)] prefix_polys [OF p c0 refs(2)])
  ultimately show ?thesis by simp
qed

lemma computeSectionProperties_h_refines:
  assumes v: "validSection h sec"
  shows "fst (computeSectionProperties_h sec h) = computeSectionProperties (sectionAt h sec)"
proof -
  let ?e = "computeElasticProperties_h sec h"
  note V = validSection_prefix [OF v computeElasticProperties_h_prefix
      computeElasticProperties_h_closed [OF v]]
  then have "fst (computePlasticProperties_h sec (snd ?e)) = computePlasticProperties (sectionAt h sec)"
    using computePlasticProperties_h_refines [of "snd ?e" sec] by simp
  then show ?thesis
    by (simp add: computeSectionProperties_h_def computeSectionProperties_def split_beta Let_def
        computeElasticProperties_h_refines [OF v])
qed


text \<open>
  C9. \<open>computeSectionProperties\<close> does not change its input: after a call every object
  that was in the store before the call (the cross section, its outer-boundary array, its
  hole arrays and every point in them) is as before the call; what the call writes, it
  writes to objects it has allocated itself. In particular the winding normalization
  reverses a copy: \<open>ensureCCW\<close> returns either its argument, with the store unchanged, or
  a new array holding the references of the argument in reverse order.
\<close>

theorem computeSectionProperties_frame:
  "computeSectionProperties_h sec h = (res, h') \<Longrightarrow> ensureCCW_h r h = (r', h1) \<Longrightarrow>
     length h \<le> length h' \<and> (\<forall>a < length h. h' ! a = h ! a)
   \<and> (validSection h sec \<longrightarrow>
        sectionAt h' sec = sectionAt h sec \<and> res = computeSectionProperties (sectionAt h sec))
   \<and> (if signedPolygonArea (points h r) < 0
       then r' = length h \<and> h1 = h @ [ArrayObj (rev (getArray h r))]
       else r' = r \<and> h1 = h)"
proof -
  assume run: "computeSectionProperties_h sec h = (res, h')" and e: "ensureCCW_h r h = (r', h1)"
  have p: "prefix h h'"
    using computeSectionProperties_h_prefix [of h sec] run by simp
  have "sectionAt h' sec = sectionAt h sec \<and> res = computeSectionProperties (sectionAt h sec)"
    if v: "validSection h sec"
  proof -
    from v have c0: "closedHeap h" and s: "sec < length h" by (simp_all add: validSection_def)
    note refs = validSection_refs [OF v]
    have "getSection h' sec = getSection h sec"
      using s prefix_length_le [OF p] by (simp add: getSection_def prefix_nth [OF p s])
    then have "sectionAt h' sec = sectionAt h sec"
      by (simp add: sectionAt_def prefix_points [OF p c0 refs(1)] prefix_polys [OF p c0 refs(2)])
    moreover have "res = computeSectionProperties (sectionAt h sec)"
      using computeSectionProperties_h_refines [OF v] run by simp
    ultimately show ?thesis by simp
  qed
  with p ensureCCW_h_copy [OF e] show ?thesis
    by (auto simp: prefix_nth dest: prefix_length_le)
qed

lemma cw_valid: "validSection cwHeap 6"
  by (simp add: validSection_def closedHeap_def closedObj_def cwHeap_def)

lemma cw_section: "sectionAt cwHeap 6 = \<lparr>outerBoundary = rev rect_10_8, holes = []\<rparr>"
proof -
  have g: "getSection cwHeap 6 = (4, 5)" by (simp add: getSection_def cwHeap_def)
  have p: "polys cwHeap 5 = []" by (simp add: polys_def getArray_def cwHeap_def)
  show ?thesis by (simp add: sectionAt_def g p cw_points)
qed

theorem computeSectionProperties_frame_witness:
  "validSection cwHeap 6
   \<and> ensureCCW_h 4 cwHeap = (7, cwHeap @ [ArrayObj [3, 2, 1, 0]])
   \<and> snd (computeSectionProperties_h 6 cwHeap) ! 4 = ArrayObj [0, 1, 2, 3]
   \<and> snd (computeSectionProperties_h 6 cwHeap) ! 0 = PointObj \<lparr>px = 0, py = 8\<rparr>
   \<and> snd (computeSectionProperties_h 6 cwHeap) ! 6 = SectionObj 4 5
   \<and> sectionAt (snd (computeSectionProperties_h 6 cwHeap)) 6
       = \<lparr>outerBoundary = rev rect_10_8, holes = []\<rparr>
   \<and> fst (computeSectionProperties_h 6 cwHeap)
       = computeSectionProperties \<lparr>outerBoundary = rev rect_10_8, holes = []\<rparr>"
proof -
  note F = computeSectionProperties_frame [OF surjective_pairing cw_ensure, of 6]
  from F have "\<forall>a < length cwHeap. snd (computeSectionProperties_h 6 cwHeap) ! a = cwHeap ! a"
    by blast
  moreover have "length cwHeap = 7" by (simp add: cwHeap_def)
  ultimately have "snd (computeSectionProperties_h 6 cwHeap) ! 4 = cwHeap ! 4"
    "snd (computeSectionProperties_h 6 cwHeap) ! 0 = cwHeap ! 0"
    "snd (computeSectionProperties_h 6 cwHeap) ! 6 = cwHeap ! 6"
    by simp_all
  moreover from F cw_valid
  have "sectionAt (snd (computeSectionProperties_h 6 cwHeap)) 6 = sectionAt cwHeap 6"
    "fst (computeSectionProperties_h 6 cwHeap) = computeSectionProperties (sectionAt cwHeap 6)"
    by simp_all
  ultimately show ?thesis
    using cw_ensure cw_valid by (simp add: cw_section) (simp add: cwHeap_def)
qed

end
